theory Spec2Isabelle
  imports Main
begin

section \<open>Data model\<close>

text \<open>
  The module keeps all its data in JavaScript objects that are shared by reference: the
  array \<open>guzzleTasks\<close> holds every \<open>GuzzleTask\<close> ever constructed, a dependency list
  holds names or references to such objects, and listeners registered on a stream hold
  references to tasks and to other streams. The model is an explicit store: objects live
  in \<open>heap\<close> (tasks) and \<open>streams\<close>, and a reference is an address.

  The fields \<open>_name\<close>, \<open>_stream\<close>, \<open>_started\<close>, \<open>_ended\<close>, \<open>_state\<close>, \<open>_runOnce\<close>,
  \<open>_dependencies\<close> and \<open>_onDoneFunction\<close> of the source lose their leading underscore.
  A \<open>Date\<close> is its number of milliseconds; a field that is \<open>null\<close> or \<open>undefined\<close> is
  \<open>None\<close>.

  The repository holds two versions of the module. The later one adds the lifecycle
  state, the run-once option and the console report; the constructor's renaming of
  dependencies, \<open>read\<close>, \<open>makeGulpTasks\<close> and the lines of the task graph are the same
  in both.
\<close>

datatype State = NOT_STARTED | STARTED | DONE | ERROR

type_synonym addr = nat
type_synonym sref = nat
type_synonym fnid = nat

datatype dep = Name string | Task addr

datatype jsval = Undefined | Stream sref | Promise nat | Plain string

datatype error = Error string | TypeError

record GuzzleTask =
  name :: string
  stream :: "sref option"
  started :: "int option"
  ended :: "int option"
  state :: State
  runOnce :: bool
  dependencies :: "dep list"
  onDoneFunction :: "fnid option"

text \<open>
  Of a stream the module uses \<open>pause\<close>, \<open>resume\<close> and \<open>on\<close>. The two kinds of listener
  it registers are the arrow functions \<open>() => { this._stream = null }\<close> of the completion
  wrapper and \<open>() => { newStream.resume() }\<close> of \<open>read\<close>.
\<close>

datatype listener = ResetStream addr | Resume sref

record strm =
  paused :: bool
  listeners :: "(string \<times> listener) list"

record world =
  heap :: "addr \<Rightarrow> GuzzleTask"
  nextAddr :: addr
  guzzleTasks :: "addr list"
  streams :: "sref \<Rightarrow> strm"
  nextStream :: sref
  graphFilename :: "string option"
  gulpTasks :: "(string \<times> string list \<times> fnid option) list"
  graphs :: "(string \<times> string) list"
  startCalls :: nat
  stdout :: "string list"

text \<open>
  \<open>gulpTasks\<close> logs the calls of \<open>gulp.task\<close> (name, dependency names, function),
  \<open>graphs\<close> the texts handed to the renderer with the file they are written to,
  \<open>startCalls\<close> counts the calls of the original \<open>gulp.start\<close>, and \<open>stdout\<close> holds what
  \<open>printTasks\<close> has written.

  The bodies the caller passes to \<open>guzzle.task\<close> are user code. A body is named by a
  \<open>fnid\<close>; what it does when called on a task is given by a table, which every operation
  that calls a body takes as a parameter.
\<close>

type_synonym bodies = "fnid \<Rightarrow> addr \<Rightarrow> world \<Rightarrow> jsval \<times> world"

definition upd_task :: "addr \<Rightarrow> (GuzzleTask \<Rightarrow> GuzzleTask) \<Rightarrow> world \<Rightarrow> world" where
  "upd_task a f w = w\<lparr>heap := (heap w)(a := f (heap w a))\<rparr>"

definition upd_strm :: "sref \<Rightarrow> (strm \<Rightarrow> strm) \<Rightarrow> world \<Rightarrow> world" where
  "upd_strm s f w = w\<lparr>streams := (streams w)(s := f (streams w s))\<rparr>"

section \<open>Streams and listeners\<close>

definition stream_on :: "sref \<Rightarrow> string \<Rightarrow> listener \<Rightarrow> world \<Rightarrow> world" where
  "stream_on s ev l w = upd_strm s (\<lambda>x. x\<lparr>listeners := listeners x @ [(ev, l)]\<rparr>) w"

definition stream_pause :: "sref \<Rightarrow> world \<Rightarrow> world" where
  "stream_pause s w = upd_strm s (\<lambda>x. x\<lparr>paused := True\<rparr>) w"

definition stream_resume :: "sref \<Rightarrow> world \<Rightarrow> world" where
  "stream_resume s w = upd_strm s (\<lambda>x. x\<lparr>paused := False\<rparr>) w"

fun run_listener :: "world \<Rightarrow> listener \<Rightarrow> world" where
  "run_listener w (ResetStream a) = upd_task a (\<lambda>t. t\<lparr>stream := None\<rparr>) w"
| "run_listener w (Resume s) = stream_resume s w"

text \<open>A stream that emits an event calls the listeners registered for it, in the order
  of registration.\<close>

definition emit :: "sref \<Rightarrow> string \<Rightarrow> world \<Rightarrow> world" where
  "emit s ev w = foldl run_listener w (map snd (filter (\<lambda>p. fst p = ev) (listeners (streams w s))))"

fun emits :: "sref \<Rightarrow> string list \<Rightarrow> world \<Rightarrow> world" where
  "emits s [] w = w"
| "emits s (ev # evs) w = emits s evs (emit s ev w)"

text \<open>\<open>gulp.src(...)\<close> returns a new stream: not paused, without listeners.\<close>

definition gulp_src :: "world \<Rightarrow> sref \<times> world" where
  "gulp_src w =
     (nextStream w,
      w\<lparr>streams := (streams w)(nextStream w := \<lparr>paused = False, listeners = []\<rparr>),
        nextStream := Suc (nextStream w)\<rparr>)"

section \<open>GuzzleTask\<close>

text \<open>The callback of \<open>dependencies.map\<close> in the constructor: a dependency that is a
  \<open>GuzzleTask\<close> gets the name of the task under construction and a dot in front of its
  own name.\<close>

fun prefix_dependency :: "addr \<Rightarrow> world \<Rightarrow> dep \<Rightarrow> world" where
  "prefix_dependency this w (Task a) =
     upd_task a (\<lambda>t. t\<lparr>name := name (heap w this) @ ''.'' @ name (heap w a)\<rparr>) w"
| "prefix_dependency this w (Name s) = w"

definition new_GuzzleTask ::
  "string \<Rightarrow> dep list \<Rightarrow> fnid option \<Rightarrow> bool \<Rightarrow> world \<Rightarrow> addr \<times> world" where
  "new_GuzzleTask nm deps fn ro w =
     (let this = nextAddr w;
          w1 = w\<lparr>heap := (heap w)(this :=
                 \<lparr>name = nm, stream = None, started = None, ended = None,
                  state = NOT_STARTED, runOnce = ro, dependencies = [],
                  onDoneFunction = None\<rparr>),
                nextAddr := Suc this\<rparr>;
          w2 = foldl (prefix_dependency this) w1 deps;
          w3 = upd_task this (\<lambda>t. t\<lparr>dependencies := deps\<rparr>) w2;
          w4 = w3\<lparr>guzzleTasks := guzzleTasks w3 @ [this]\<rparr>
      in (this, upd_task this (\<lambda>t. t\<lparr>onDoneFunction := fn\<rparr>) w4))"

text \<open>
  The completion wrapper \<open>this._onDoneFunction\<close>, which exists when a body \<open>f\<close> was
  given. It either returns \<open>callback()\<close> without calling the body, or calls the body and
  returns a value.
\<close>

datatype outcome = CalledBack | Returned jsval

definition onDoneFunction_wrapper :: "bodies \<Rightarrow> addr \<Rightarrow> fnid \<Rightarrow> world \<Rightarrow> outcome \<times> world" where
  "onDoneFunction_wrapper bodies this f w =
     (if runOnce (heap w this) \<and> state (heap w this) \<noteq> NOT_STARTED then (CalledBack, w)
      else
        (let (result, w1) = bodies f this w;
             w2 = (case stream (heap w1 this) of
                     None \<Rightarrow> w1
                   | Some s \<Rightarrow>
                       stream_on s ''end'' (ResetStream this)
                         (stream_on s ''finish'' (ResetStream this) w1))
         in (Returned (case stream (heap w2 this) of Some s \<Rightarrow> Stream s | None \<Rightarrow> result),
             w2)))"

definition read :: "addr \<Rightarrow> world \<Rightarrow> world" where
  "read this w =
     (let oldStream = stream (heap w this);
          (newStream, w1) = gulp_src w;
          w2 = upd_task this (\<lambda>t. t\<lparr>stream := Some newStream\<rparr>) w1
      in case oldStream of
           None \<Rightarrow> w2
         | Some old \<Rightarrow> stream_on old ''finish'' (Resume newStream) (stream_pause newStream w2))"

section \<open>Number formatting\<close>

text \<open>
  JavaScript converts a number to text when it is concatenated with a string. The numbers
  formatted here are differences of two dates in milliseconds, hence integers, and such
  an integer divided by 100, rounded and divided by 10.
\<close>

text \<open>The decimal digit for a number below 10, and the digits of a natural number.\<close>

definition digit :: "nat \<Rightarrow> char" where
  "digit d = ''0123456789'' ! d"

fun digits :: "nat \<Rightarrow> string" where
  "digits n = (if 10 \<le> n then digits (n div 10) @ [digit (n mod 10)] else [digit n])"

declare digits.simps [simp del]

definition Number_toString :: "int \<Rightarrow> string" where
  "Number_toString i = (if 0 \<le> i then digits (nat i) else CHR ''-'' # digits (nat (- i)))"

text \<open>
  \<open>Math.round(elapsed / 100)\<close>: the quotient is rounded to the nearest integer, a half
  upwards. On an integer \<open>elapsed\<close> that is \<open>(elapsed + 50) div 100\<close>.
\<close>

definition Math_round_div100 :: "int \<Rightarrow> int" where
  "Math_round_div100 e = (e + 50) div 100"

text \<open>
  \<open>(n / 10) + 's'\<close> for an integer \<open>n\<close> that is not negative: JavaScript prints the
  shortest decimal that denotes the number, so a whole number has no fraction digits and
  any other tenth has one.
\<close>

definition tenths_toString :: "int \<Rightarrow> string" where
  "tenths_toString n =
     (if n mod 10 = 0 then Number_toString (n div 10)
      else Number_toString (n div 10) @ ''.'' @ Number_toString (n mod 10))"

section \<open>Console reporter\<close>

text \<open>
  The glyphs and the colours come from the \<open>cli-color\<close> library; they are parameters,
  together with the option \<open>prettyPrint\<close> of \<open>guzzle\<close>.

  The elapsed time is the difference of two dates. JavaScript computes it on doubles,
  which is the exact difference as long as that is below \<open>2 ^ 53\<close> in size, as it is
  for two dates of which neither is before 1970: a date is at most 8640000000000000.
\<close>

record console =
  prettyPrint :: bool
  stateSymbols :: "State \<Rightarrow> string"
  blackBright :: "string \<Rightarrow> string"

definition elapsed_ms :: "int \<Rightarrow> GuzzleTask \<Rightarrow> int" where
  "elapsed_ms now t =
     (case started t of
        None \<Rightarrow> 0
      | Some s \<Rightarrow> (case ended t of None \<Rightarrow> now | Some e \<Rightarrow> e) - s)"

definition elapsed_text :: "int \<Rightarrow> string" where
  "elapsed_text elapsed =
     (if elapsed > 1000 then tenths_toString (Math_round_div100 elapsed) @ ''s''
      else Number_toString elapsed @ ''ms'')"

definition task_line :: "console \<Rightarrow> int \<Rightarrow> GuzzleTask \<Rightarrow> string" where
  "task_line c now t =
     (let elapsed = elapsed_text (elapsed_ms now t)
      in stateSymbols c (state t) @ '' '' @ name t @ '' '' @
         (if elapsed \<noteq> [] then blackBright c (''('' @ elapsed @ '')'') else []))"

fun join :: "string \<Rightarrow> string list \<Rightarrow> string" where
  "join sep [] = []"
| "join sep [x] = x"
| "join sep (x # y # ys) = x @ sep @ join sep (y # ys)"

definition nl :: string where
  "nl = [CHR 0x0A]"

definition printTasks :: "console \<Rightarrow> int \<Rightarrow> world \<Rightarrow> world" where
  "printTasks c now w =
     w\<lparr>stdout := stdout w @
        [[CHR 0x1B] @ ''c'' @ nl
         @ join nl (map (\<lambda>a. task_line c now (heap w a)) (guzzleTasks w))
         @ nl @ ''---'' @ nl]\<rparr>"

section \<open>Lifecycle handlers\<close>

definition findGuzzleTask :: "world \<Rightarrow> string \<Rightarrow> addr option" where
  "findGuzzleTask w taskName = find (\<lambda>a. name (heap w a) = taskName) (guzzleTasks w)"

text \<open>
  The three listeners that \<open>guzzle\<close> registers on \<open>gulp\<close>. \<open>now\<close> is the clock at the
  time of the event; \<open>printTasks\<close> reads the clock again, and the two readings of one
  handler are taken to be the same. When no task has the event's name,
  \<open>findGuzzleTask\<close> returns \<open>undefined\<close> and the access to its field raises a
  \<open>TypeError\<close>.
\<close>

definition task_start :: "console \<Rightarrow> int \<Rightarrow> string \<Rightarrow> world \<Rightarrow> error + world" where
  "task_start c now taskName w =
     (case findGuzzleTask w taskName of
        None \<Rightarrow> Inl TypeError
      | Some a \<Rightarrow>
          (let w1 = upd_task a (\<lambda>t. t\<lparr>state := STARTED\<rparr>) w;
               w2 = upd_task a (\<lambda>t. t\<lparr>started := Some now\<rparr>) w1
           in Inr (if prettyPrint c then printTasks c now w2 else w2)))"

definition task_stop :: "console \<Rightarrow> int \<Rightarrow> string \<Rightarrow> world \<Rightarrow> error + world" where
  "task_stop c now taskName w =
     (case findGuzzleTask w taskName of
        None \<Rightarrow> Inl TypeError
      | Some a \<Rightarrow>
          (if state (heap w a) = DONE then Inr w
           else
             (let w1 = upd_task a (\<lambda>t. t\<lparr>state := DONE\<rparr>) w;
                  w2 = upd_task a (\<lambda>t. t\<lparr>ended := Some now\<rparr>) w1
              in Inr (if prettyPrint c then printTasks c now w2 else w2))))"

definition task_err :: "console \<Rightarrow> int \<Rightarrow> string \<Rightarrow> world \<Rightarrow> error + world" where
  "task_err c now taskName w =
     (case findGuzzleTask w taskName of
        None \<Rightarrow> Inl TypeError
      | Some a \<Rightarrow>
          (let w1 = upd_task a (\<lambda>t. t\<lparr>state := ERROR\<rparr>) w
           in Inr (if prettyPrint c then printTasks c now w1 else w1)))"

section \<open>Resolution\<close>

text \<open>
  The inner \<open>map\<close> of \<open>makeGulpTasks\<close>: it stops at the first name that no task has.
  Every entry of its result is a task object, the dependency itself or the task found
  for a name; the result is the list of these objects.
\<close>

fun resolve :: "world \<Rightarrow> dep list \<Rightarrow> error + addr list" where
  "resolve w [] = Inr []"
| "resolve w (Task a # ds) =
     (case resolve w ds of Inl e \<Rightarrow> Inl e | Inr rs \<Rightarrow> Inr (a # rs))"
| "resolve w (Name s # ds) =
     (case findGuzzleTask w s of
        None \<Rightarrow> Inl (Error (''task not found: '' @ s))
      | Some a \<Rightarrow> (case resolve w ds of Inl e \<Rightarrow> Inl e | Inr rs \<Rightarrow> Inr (a # rs)))"

text \<open>
  \<open>gulp.task(name, dep, fn)\<close> records the task, unless it refuses it: it throws for a
  name that is empty. Its other checks pass here: the name is a string, and the entries
  of \<open>dep\<close> are the names of task objects, hence strings.
\<close>

definition gulp_task ::
  "string \<Rightarrow> string list \<Rightarrow> fnid option \<Rightarrow> world \<Rightarrow> error + world" where
  "gulp_task nm deps fn w =
     (if nm = [] then Inl (Error ''Task requires a name'')
      else Inr (w\<lparr>gulpTasks := gulpTasks w @ [(nm, deps, fn)]\<rparr>))"

text \<open>
  The loop over \<open>guzzleTasks\<close>. The dependency list of the task becomes the list of the
  resolved objects, and \<open>gulp.task\<close> gets their names. When the loop throws, what it has
  already changed stays: the result is the error together with the world at that moment.
\<close>

fun makeGulpTasks_from :: "addr list \<Rightarrow> world \<Rightarrow> (error \<times> world) + world" where
  "makeGulpTasks_from [] w = Inr w"
| "makeGulpTasks_from (a # as) w =
     (case resolve w (dependencies (heap w a)) of
        Inl e \<Rightarrow> Inl (e, w)
      | Inr rs \<Rightarrow>
          (let w1 = upd_task a (\<lambda>t. t\<lparr>dependencies := map Task rs\<rparr>) w;
               t = heap w1 a
           in case gulp_task (name t) (map (\<lambda>b. name (heap w1 b)) rs) (onDoneFunction t) w1 of
                Inl e \<Rightarrow> Inl (e, w1)
              | Inr w2 \<Rightarrow> makeGulpTasks_from as w2))"

definition makeGulpTasks :: "world \<Rightarrow> (error \<times> world) + world" where
  "makeGulpTasks w = makeGulpTasks_from (guzzleTasks w) w"

section \<open>Task graph\<close>

definition dq :: string where
  "dq = [CHR 0x22]"

text \<open>The property \<open>_name\<close> of a dependency: a string has none.\<close>

fun dep_name :: "world \<Rightarrow> dep \<Rightarrow> string option" where
  "dep_name w (Task a) = Some (name (heap w a))"
| "dep_name w (Name s) = None"

definition undefined_text :: "string option \<Rightarrow> string" where
  "undefined_text v = (case v of None \<Rightarrow> ''undefined'' | Some s \<Rightarrow> s)"

definition attr :: "GuzzleTask \<Rightarrow> string list" where
  "attr t =
     [''shape='' @ (if length (dependencies t) \<noteq> 0 then ''box'' else ''ellipse''),
      ''style='' @ (if onDoneFunction t \<noteq> None then ''solid'' else ''dashed'')]"

definition push_edge :: "world \<Rightarrow> GuzzleTask \<Rightarrow> string list \<Rightarrow> dep \<Rightarrow> string list" where
  "push_edge w t result dependency =
     result @ [dq @ name t @ dq @ '' -> '' @ dq @ undefined_text (dep_name w dependency) @ dq @ '';'']"

definition push_task :: "world \<Rightarrow> string list \<Rightarrow> addr \<Rightarrow> string list" where
  "push_task w result a =
     (let t = heap w a;
          result1 = result @ [dq @ name t @ dq @ '' ['' @ join '','' (attr t) @ ''];'']
      in if length (dependencies t) > 0 then foldl (push_edge w t) result1 (dependencies t)
         else result1)"

definition graph_lines :: "world \<Rightarrow> string list" where
  "graph_lines w = foldl (push_task w) [''digraph G {''] (guzzleTasks w) @ [''}'']"

text \<open>\<open>outputTaskGraph\<close> hands the text to the renderer, whose output goes to the file.\<close>

definition outputTaskGraph :: "world \<Rightarrow> world" where
  "outputTaskGraph w =
     (case graphFilename w of
        None \<Rightarrow> w
      | Some file \<Rightarrow> w\<lparr>graphs := graphs w @ [(file, join nl (graph_lines w))]\<rparr>)"

section \<open>Start\<close>

text \<open>The replacement of \<open>gulp.start\<close>. An exception of \<open>makeGulpTasks\<close> leaves it
  before the graph and before the original \<open>gulp.start\<close>.\<close>

definition gulp_start :: "world \<Rightarrow> (error \<times> world) + world" where
  "gulp_start w =
     (case makeGulpTasks w of
        Inl ew \<Rightarrow> Inl ew
      | Inr w1 \<Rightarrow>
          (let w2 = (if graphFilename w1 \<noteq> None then outputTaskGraph w1 else w1)
           in Inr (w2\<lparr>startCalls := Suc (startCalls w2)\<rparr>)))"

section \<open>The module after loading, and declarations\<close>

text \<open>When the module has been loaded there is no task and no stream, and
  \<open>graphFilename\<close> is undefined.\<close>

definition blank :: GuzzleTask where
  "blank = \<lparr>name = [], stream = None, started = None, ended = None, state = NOT_STARTED,
     runOnce = False, dependencies = [], onDoneFunction = None\<rparr>"

definition init :: world where
  "init = \<lparr>heap = (\<lambda>a. blank), nextAddr = 0, guzzleTasks = [],
     streams = (\<lambda>s. \<lparr>paused = False, listeners = []\<rparr>), nextStream = 0,
     graphFilename = None, gulpTasks = [], graphs = [], startCalls = 0, stdout = []\<rparr>"

text \<open>A sequence of declarations \<open>new GuzzleTask(name, dependencies, body, {runOnce})\<close>,
  one after the other.\<close>

fun declare_all :: "(string \<times> dep list \<times> fnid option \<times> bool) list \<Rightarrow> world \<Rightarrow> world" where
  "declare_all [] w = w"
| "declare_all ((nm, deps, fn, ro) # rest) w =
     declare_all rest (snd (new_GuzzleTask nm deps fn ro w))"

section \<open>Signals of the scheduler\<close>

text \<open>The events \<open>task_start\<close>, \<open>task_stop\<close> and \<open>task_err\<close> that gulp emits for one task,
  each with the clock at its time, and the states the task goes through when a sequence
  of them is delivered.\<close>

datatype signal = Start int | Stop int | Err int

fun deliver :: "console \<Rightarrow> string \<Rightarrow> world \<Rightarrow> signal \<Rightarrow> error + world" where
  "deliver c nm w (Start now) = task_start c now nm w"
| "deliver c nm w (Stop now) = task_stop c now nm w"
| "deliver c nm w (Err now) = task_err c now nm w"

fun state_trace :: "console \<Rightarrow> addr \<Rightarrow> signal list \<Rightarrow> world \<Rightarrow> State list" where
  "state_trace c a [] w = [state (heap w a)]"
| "state_trace c a (s # ss) w =
     state (heap w a) #
     (case deliver c (name (heap w a)) w s of Inl e \<Rightarrow> [] | Inr w' \<Rightarrow> state_trace c a ss w')"

text \<open>The transitions of the declared state machine.\<close>

definition declared_transition :: "State \<Rightarrow> State \<Rightarrow> bool" where
  "declared_transition s s' =
     ((s = NOT_STARTED \<and> s' = STARTED) \<or> (s = DONE \<and> s' = STARTED)
      \<or> (s = STARTED \<and> s' = DONE) \<or> (s = STARTED \<and> s' = ERROR))"

section \<open>Example inputs\<close>

definition plain :: console where
  "plain = \<lparr>prettyPrint = False,
     stateSymbols = (\<lambda>s. case s of NOT_STARTED \<Rightarrow> ''-'' | STARTED \<Rightarrow> ''?''
                                | DONE \<Rightarrow> ''v'' | ERROR \<Rightarrow> ''X''),
     blackBright = (\<lambda>s. s)\<rparr>"

text \<open>\<open>guzzle.task('css', function body0 ...)\<close> as the first declaration.\<close>

definition css_declared :: world where
  "css_declared = snd (new_GuzzleTask ''css'' [] (Some 0) False init)"

text \<open>The same task after a run from time 0 to time 5.\<close>

definition css_done :: world where
  "css_done =
     upd_task 0 (\<lambda>t. t\<lparr>started := Some 0, ended := Some 5, state := DONE\<rparr>) css_declared"

section \<open>Resolved dependencies\<close>

text \<open>The name of a dependency: of a task object its name, of a string the string.\<close>

fun dependency_name :: "world \<Rightarrow> dep \<Rightarrow> string" where
  "dependency_name w (Task b) = name (heap w b)"
| "dependency_name w (Name s) = s"

text \<open>A dependency resolves when it is a task object or the name of a declared task.\<close>

fun found :: "world \<Rightarrow> dep \<Rightarrow> bool" where
  "found w (Task b) = True"
| "found w (Name s) = (findGuzzleTask w s \<noteq> None)"

text \<open>A task that can be passed on to gulp: it has a name, and its dependencies
  resolve.\<close>

definition registrable :: "world \<Rightarrow> addr \<Rightarrow> bool" where
  "registrable w a = (name (heap w a) \<noteq> [] \<and> list_all (found w) (dependencies (heap w a)))"

text \<open>What \<open>gulp.task\<close> is to be called with for a task: its name, the names of its
  dependencies, and its completion wrapper if it has a body.\<close>

definition registration :: "world \<Rightarrow> addr \<Rightarrow> string \<times> string list \<times> fnid option" where
  "registration w a =
     (name (heap w a), map (dependency_name w) (dependencies (heap w a)), onDoneFunction (heap w a))"

section \<open>The graph as the specification describes it\<close>

text \<open>One node declaration for a task, one edge from a task to the name of a
  dependency, and the whole text: the tasks in the order of declaration, each with its
  node declaration followed by its edges in the order of its dependency list.\<close>

definition spec_node :: "GuzzleTask \<Rightarrow> string" where
  "spec_node t =
     dq @ name t @ dq @ '' [shape='' @ (if dependencies t = [] then ''ellipse'' else ''box'')
     @ '',style='' @ (if onDoneFunction t = None then ''dashed'' else ''solid'') @ ''];''"

definition spec_edge :: "world \<Rightarrow> GuzzleTask \<Rightarrow> dep \<Rightarrow> string" where
  "spec_edge w t d = dq @ name t @ dq @ '' -> '' @ dq @ dependency_name w d @ dq @ '';''"

definition spec_task :: "world \<Rightarrow> addr \<Rightarrow> string list" where
  "spec_task w a = spec_node (heap w a) # map (spec_edge w (heap w a)) (dependencies (heap w a))"

definition spec_graph :: "world \<Rightarrow> string list" where
  "spec_graph w = ''digraph G {'' # concat (map (spec_task w) (guzzleTasks w)) @ [''}'']"

text \<open>Whether a text occurs in another one.\<close>

fun occurs_in :: "string \<Rightarrow> string \<Rightarrow> bool" where
  "occurs_in sub [] = (sub = [])"
| "occurs_in sub (c # cs) = (take (length sub) (c # cs) = sub \<or> occurs_in sub cs)"

text \<open>A task \<open>a\<close> with a body, then a task \<open>b\<close> without a body that depends on
  the name \<open>a\<close>.\<close>

definition ab_declared :: world where
  "ab_declared =
     declare_all [(''a'', [], Some 0, False), (''b'', [Name ''a''], None, False)] init"

text \<open>A task \<open>a\<close> with a body, then a task \<open>build\<close> that depends on the name
  \<open>missing\<close>, which no task has.\<close>

definition missing_declared :: world where
  "missing_declared =
     declare_all [(''a'', [], Some 0, False), (''build'', [Name ''missing''], None, False)] init"

text \<open>A task without a name, then the task \<open>build\<close> as before.\<close>

definition unnamed_declared :: world where
  "unnamed_declared =
     declare_all [([], [], Some 0, False), (''build'', [Name ''missing''], None, False)] init"

text \<open>The tasks \<open>a\<close> and \<open>b\<close> with the option \<open>taskGraph: 'graph.svg'\<close>.\<close>

definition ab_graph :: world where
  "ab_graph = ab_declared\<lparr>graphFilename := Some ''graph.svg''\<rparr>"

text \<open>What a start that threw leaves behind: the error, and the calls of \<open>gulp.task\<close>
  made before it.\<close>

definition thrown ::
  "(error \<times> world) + world \<Rightarrow> (error \<times> (string \<times> string list \<times> fnid option) list) option" where
  "thrown r = (case r of Inl (e, w') \<Rightarrow> Some (e, gulpTasks w') | Inr w' \<Rightarrow> None)"

section \<open>Activations\<close>

text \<open>
  gulp runs a task by emitting \<open>task_start\<close> and then calling the function that was
  registered with \<open>gulp.task\<close>, which for a task with a body is the completion wrapper;
  when the function has completed it emits \<open>task_stop\<close>. \<open>call_task\<close> is the call of
  the registered function, with the number of times it called the body, and
  \<open>activations\<close> is a sequence of such runs of one task, each with the times of its
  two signals; it returns how many times the body was called in all.
\<close>

definition call_task :: "bodies \<Rightarrow> addr \<Rightarrow> world \<Rightarrow> nat \<times> world" where
  "call_task bodies a w =
     (case onDoneFunction (heap w a) of
        None \<Rightarrow> (0, w)
      | Some f \<Rightarrow>
          (case onDoneFunction_wrapper bodies a f w of
             (CalledBack, w1) \<Rightarrow> (0, w1)
           | (Returned v, w1) \<Rightarrow> (1, w1)))"

fun activations ::
  "console \<Rightarrow> bodies \<Rightarrow> addr \<Rightarrow> (int \<times> int) list \<Rightarrow> world \<Rightarrow> error + nat \<times> world" where
  "activations c bodies a [] w = Inr (0, w)"
| "activations c bodies a ((t0, t1) # ts) w =
     (case task_start c t0 (name (heap w a)) w of
        Inl e \<Rightarrow> Inl e
      | Inr w1 \<Rightarrow>
          (case call_task bodies a w1 of
             (n, w2) \<Rightarrow>
               (case task_stop c t1 (name (heap w2 a)) w2 of
                  Inl e \<Rightarrow> Inl e
                | Inr w3 \<Rightarrow>
                    (case activations c bodies a ts w3 of
                       Inl e \<Rightarrow> Inl e
                     | Inr (m, w4) \<Rightarrow> Inr (n + m, w4)))))"

definition body_calls :: "error + nat \<times> world \<Rightarrow> nat option" where
  "body_calls r = (case r of Inl e \<Rightarrow> None | Inr (n, w) \<Rightarrow> Some n)"

text \<open>A body that reads a source and returns a promise, whatever its \<open>fnid\<close>.\<close>

definition reading :: bodies where
  "reading f this w = (Promise 0, read this w)"

text \<open>A body that touches no stream and returns a promise.\<close>

definition promising :: bodies where
  "promising f this w = (Promise 0, w)"

text \<open>\<open>guzzle.taskOnce('once', body0)\<close> and \<open>guzzle.task('again', body0)\<close>, each as the
  first declaration.\<close>

definition once_declared :: world where
  "once_declared = snd (new_GuzzleTask ''once'' [] (Some 0) True init)"

definition again_declared :: world where
  "again_declared = snd (new_GuzzleTask ''again'' [] (Some 0) False init)"

text \<open>
  Three calls of the wrapper of the task \<open>again\<close>, whose body reads a source. The
  stream of the first call emits \<open>finish\<close> between the second call and the third; the
  streams of the second and of the third call emit nothing.
\<close>

definition first_run :: world where
  "first_run = snd (call_task reading 0 again_declared)"

definition second_run :: world where
  "second_run = snd (call_task reading 0 first_run)"

definition first_finished :: world where
  "first_finished = emit 0 ''finish'' second_run"

definition third_run :: world where
  "third_run = snd (call_task reading 0 first_finished)"

section \<open>Decimal numerals\<close>

text \<open>The value of a decimal digit and of a text of decimal digits, and whether a text
  is a decimal numeral.\<close>

definition digit_value :: "char \<Rightarrow> nat" where
  "digit_value c = length (takeWhile (\<lambda>x. x \<noteq> c) ''0123456789'')"

definition number_of :: "string \<Rightarrow> nat" where
  "number_of ds = foldl (\<lambda>v c. 10 * v + digit_value c) 0 ds"

definition is_decimal :: "string \<Rightarrow> bool" where
  "is_decimal ds = (ds \<noteq> [] \<and> list_all (\<lambda>c. digit_value c < 10) ds)"

text \<open>The task \<open>css\<close> after a run from time 0 to a given time, and while it runs for
  the first time, started at time 100.\<close>

definition css_ran :: "int \<Rightarrow> world" where
  "css_ran e =
     upd_task 0 (\<lambda>t. t\<lparr>started := Some 0, ended := Some e, state := DONE\<rparr>) css_declared"

definition css_running :: world where
  "css_running = upd_task 0 (\<lambda>t. t\<lparr>started := Some 100, state := STARTED\<rparr>) css_declared"

section \<open>The store\<close>

lemma upd_task_simps [simp]:
  "heap (upd_task a f w) = (heap w)(a := f (heap w a))"
  "nextAddr (upd_task a f w) = nextAddr w"
  "guzzleTasks (upd_task a f w) = guzzleTasks w"
  "streams (upd_task a f w) = streams w"
  "nextStream (upd_task a f w) = nextStream w"
  "graphFilename (upd_task a f w) = graphFilename w"
  "gulpTasks (upd_task a f w) = gulpTasks w"
  "graphs (upd_task a f w) = graphs w"
  "startCalls (upd_task a f w) = startCalls w"
  "stdout (upd_task a f w) = stdout w"
  by (simp_all add: upd_task_def)

lemma upd_strm_simps [simp]:
  "heap (upd_strm s f w) = heap w"
  "nextAddr (upd_strm s f w) = nextAddr w"
  "guzzleTasks (upd_strm s f w) = guzzleTasks w"
  "streams (upd_strm s f w) = (streams w)(s := f (streams w s))"
  "nextStream (upd_strm s f w) = nextStream w"
  "graphFilename (upd_strm s f w) = graphFilename w"
  "gulpTasks (upd_strm s f w) = gulpTasks w"
  "graphs (upd_strm s f w) = graphs w"
  "startCalls (upd_strm s f w) = startCalls w"
  "stdout (upd_strm s f w) = stdout w"
  by (simp_all add: upd_strm_def)

section \<open>Namespacing of dependencies\<close>

lemma prefix_fold_nextAddr [simp]:
  "nextAddr (foldl (prefix_dependency this) w ds) = nextAddr w"
proof (induction ds arbitrary: w)
  case Nil
  show ?case by simp
next
  case (Cons d ds)
  show ?case by (cases d) (simp_all add: Cons.IH)
qed

lemma css_declared_facts:
  "nextAddr css_declared = 1" "name (heap css_declared 0) = ''css''"
  by (simp_all add: css_declared_def new_GuzzleTask_def init_def Let_def)

lemma concat_replicate_snoc:
  "concat (replicate n x) @ x = x @ concat (replicate n x)"
  by (induction n) simp_all

lemma prefix_fold_name:
  assumes "Task this \<notin> set ds"
  shows "name (heap (foldl (prefix_dependency this) w ds) b) =
     (if b = this then name (heap w this)
      else concat (replicate (count_list ds (Task b)) (name (heap w this) @ ''.'')) @ name (heap w b))"
  using assms
proof (induction ds arbitrary: w)
  case Nil
  show ?case by simp
next
  case (Cons d ds)
  then have notin: "Task this \<notin> set ds" and d: "d \<noteq> Task this" by auto
  show ?case
  proof (cases d)
    case (Name s)
    then show ?thesis using Cons.IH [OF notin] by simp
  next
    case (Task a)
    with d have "a \<noteq> this" by simp
    then show ?thesis using Task Cons.IH [OF notin, of "prefix_dependency this w d"]
      using concat_replicate_snoc [of "count_list ds (Task a)" "name (heap w this) @ ''.''"]
      by auto
  qed
qed

lemma new_GuzzleTask_nextAddr: "nextAddr (snd (new_GuzzleTask nm deps fn ro w)) = Suc (nextAddr w)"
  by (simp add: new_GuzzleTask_def Let_def)

lemma new_GuzzleTask_name:
  assumes "Task (nextAddr w) \<notin> set deps" "a \<noteq> nextAddr w"
  shows "name (heap (snd (new_GuzzleTask nm deps fn ro w)) a) =
     concat (replicate (count_list deps (Task a)) (nm @ ''.'')) @ name (heap w a)"
  using assms by (simp add: new_GuzzleTask_def Let_def prefix_fold_name)

text \<open>
  Claim C6. A dependency that is given as a task object and not as a name is renamed by
  the declaration: its new name is the name of the declared task, a dot, and the name it
  had before, once for every time it is listed. Listed once, the task \<open>css\<close> under
  \<open>build\<close> becomes \<open>build.css\<close>. The dependencies are objects that exist already,
  so none of them is the task under construction.
\<close>

theorem dependency_task_is_namespaced:
  assumes "Task a \<in> set deps" and "Task (nextAddr w) \<notin> set deps"
  shows "name (heap (snd (new_GuzzleTask nm deps fn ro w)) a) =
           concat (replicate (count_list deps (Task a)) (nm @ ''.'')) @ name (heap w a)
         \<and> (count_list deps (Task a) = 1 \<longrightarrow>
              name (heap (snd (new_GuzzleTask nm deps fn ro w)) a) = nm @ ''.'' @ name (heap w a))"
proof -
  from assms have "a \<noteq> nextAddr w" by auto
  with assms(2) have "name (heap (snd (new_GuzzleTask nm deps fn ro w)) a) =
      concat (replicate (count_list deps (Task a)) (nm @ ''.'')) @ name (heap w a)"
    by (rule new_GuzzleTask_name)
  then show ?thesis by simp
qed

theorem dependency_task_is_namespaced_witness:
  "Task 0 \<in> set [Task 0] \<and> Task (nextAddr css_declared) \<notin> set [Task 0]
   \<and> count_list [Task 0] (Task 0) = 1
   \<and> name (heap css_declared 0) = ''css''
   \<and> name (heap (snd (new_GuzzleTask ''build'' [Task 0] None False css_declared)) 0) = ''build.css''"
  using dependency_task_is_namespaced [of 0 "[Task 0]" css_declared "''build''" None False]
  by (simp add: css_declared_facts)

text \<open>
  Claim C10. The renaming changes the dependency object itself. When the same task
  object is a dependency of several declarations, each of them puts the name of its task
  in front, so the name ends up with the prefixes of all the parents, the last declared
  first: \<open>css\<close> under \<open>p1\<close> and then under \<open>p2\<close> is \<open>p2.p1.css\<close>.
\<close>

theorem shared_dependency_accumulates_prefixes:
  assumes "a < nextAddr w"
    and "\<forall>d \<in> set decls. count_list (fst (snd d)) (Task a) = 1
            \<and> (\<forall>b. Task b \<in> set (fst (snd d)) \<longrightarrow> b < nextAddr w)"
  shows "name (heap (declare_all decls w) a) =
           concat (map (\<lambda>d. fst d @ ''.'') (rev decls)) @ name (heap w a)"
  using assms
proof (induction decls arbitrary: w)
  case Nil
  show ?case by simp
next
  case (Cons d rest)
  obtain nm deps fn ro where d: "d = (nm, deps, fn, ro)" by (cases d) auto
  let ?w = "snd (new_GuzzleTask nm deps fn ro w)"
  from Cons.prems d have once: "count_list deps (Task a) = 1"
    and old: "\<forall>b. Task b \<in> set deps \<longrightarrow> b < nextAddr w" by auto
  from old have fresh: "Task (nextAddr w) \<notin> set deps" by auto
  from Cons.prems(1) have "a \<noteq> nextAddr w" by simp
  with fresh have step: "name (heap ?w a) = nm @ ''.'' @ name (heap w a)"
    using once by (simp add: new_GuzzleTask_name)
  have next': "nextAddr ?w = Suc (nextAddr w)" by (rule new_GuzzleTask_nextAddr)
  have "name (heap (declare_all rest ?w) a) =
          concat (map (\<lambda>d. fst d @ ''.'') (rev rest)) @ name (heap ?w a)"
  proof (rule Cons.IH)
    show "a < nextAddr ?w" using Cons.prems(1) next' by simp
    show "\<forall>d \<in> set rest. count_list (fst (snd d)) (Task a) = 1
            \<and> (\<forall>b. Task b \<in> set (fst (snd d)) \<longrightarrow> b < nextAddr ?w)"
      using Cons.prems(2) next' by (auto simp: less_Suc_eq)
  qed
  then show ?case using d step by simp
qed

theorem shared_dependency_accumulates_prefixes_witness:
  "(0::nat) < nextAddr css_declared
   \<and> name (heap css_declared 0) = ''css''
   \<and> name (heap (declare_all [(''p1'', [Task 0], None, False), (''p2'', [Task 0], None, False)]
        css_declared) 0) = ''p2.p1.css''"
  using shared_dependency_accumulates_prefixes
    [of 0 css_declared "[(''p1'', [Task 0], None, False), (''p2'', [Task 0], None, False)]"]
  by (simp add: css_declared_facts)

section \<open>Lifecycle\<close>

lemma printTasks_simps [simp]:
  "heap (printTasks c now w) = heap w"
  "guzzleTasks (printTasks c now w) = guzzleTasks w"
  "nextAddr (printTasks c now w) = nextAddr w"
  "streams (printTasks c now w) = streams w"
  by (simp_all add: printTasks_def)

lemma css_declared_task:
  "guzzleTasks css_declared = [0]" "state (heap css_declared 0) = NOT_STARTED"
  "ended (heap css_declared 0) = None"
  by (simp_all add: css_declared_def new_GuzzleTask_def init_def Let_def)

lemma find_css:
  "findGuzzleTask css_declared ''css'' = Some 0" "findGuzzleTask css_done ''css'' = Some 0"
  by (simp_all add: findGuzzleTask_def css_done_def css_declared_task css_declared_facts)

text \<open>
  Claim C3. A stop signal for a task that is \<open>DONE\<close> changes nothing at all: the state
  stays \<open>DONE\<close> and \<open>ended\<close> keeps its time. For a task in any other state it sets the
  state to \<open>DONE\<close> and \<open>ended\<close> to the time of the signal, and touches no other task.
\<close>

theorem task_stop_idempotent:
  assumes "findGuzzleTask w nm = Some a"
  shows "(state (heap w a) = DONE \<longrightarrow> task_stop c now nm w = Inr w) \<and>
         (state (heap w a) \<noteq> DONE \<longrightarrow>
            (\<exists>w'. task_stop c now nm w = Inr w'
               \<and> heap w' a = (heap w a)\<lparr>state := DONE, ended := Some now\<rparr>
               \<and> (\<forall>b. b \<noteq> a \<longrightarrow> heap w' b = heap w b)))"
  using assms by (simp add: task_stop_def Let_def)

theorem task_stop_idempotent_witness:
  "findGuzzleTask css_done ''css'' = Some 0 \<and> state (heap css_done 0) = DONE
   \<and> ended (heap css_done 0) = Some 5
   \<and> task_stop plain 9 ''css'' css_done = Inr css_done
   \<and> findGuzzleTask css_declared ''css'' = Some 0 \<and> state (heap css_declared 0) \<noteq> DONE
   \<and> (\<exists>w'. task_stop plain 9 ''css'' css_declared = Inr w'
         \<and> state (heap w' 0) = DONE \<and> ended (heap w' 0) = Some 9)"
proof -
  have d: "state (heap css_done 0) = DONE" "ended (heap css_done 0) = Some 5"
    by (simp_all add: css_done_def)
  have n: "state (heap css_declared 0) \<noteq> DONE" by (simp add: css_declared_task)
  from task_stop_idempotent [OF find_css(2), of plain 9] d
  have 1: "task_stop plain 9 ''css'' css_done = Inr css_done" by simp
  from task_stop_idempotent [OF find_css(1), of plain 9] n
  obtain w' where "task_stop plain 9 ''css'' css_declared = Inr w'"
    "heap w' 0 = (heap css_declared 0)\<lparr>state := DONE, ended := Some 9\<rparr>" by auto
  then have 2: "\<exists>w'. task_stop plain 9 ''css'' css_declared = Inr w'
         \<and> state (heap w' 0) = DONE \<and> ended (heap w' 0) = Some 9" by simp
  show ?thesis using 1 2 d n find_css by simp
qed

text \<open>
  Claim C4 says that from \<open>NOT_STARTED\<close> the handlers only perform the transitions of the
  declared state machine, and that \<open>ERROR\<close> is entered from \<open>STARTED\<close> only. An error
  signal that follows a stop signal takes the task from \<open>DONE\<close> to \<open>ERROR\<close>, and a
  start signal that follows an error signal takes it from \<open>ERROR\<close> to \<open>STARTED\<close>.
\<close>

theorem error_after_done_counterexample:
  "state_trace plain 0 [Start 0, Stop 5, Err 6] css_declared = [NOT_STARTED, STARTED, DONE, ERROR]
   \<and> \<not> declared_transition DONE ERROR
   \<and> state_trace plain 0 [Start 0, Err 5, Start 6] css_declared = [NOT_STARTED, STARTED, ERROR, STARTED]
   \<and> \<not> declared_transition ERROR STARTED"
  by (simp add: task_start_def task_stop_def task_err_def findGuzzleTask_def plain_def declared_transition_def
      css_declared_task css_declared_facts Let_def)

text \<open>
  Claim C4 as amended. The handlers do not look at the state the task is in, but for the
  stop handler, which leaves a task that is \<open>DONE\<close> alone: a start signal puts the task
  in \<open>STARTED\<close>, a stop signal in \<open>DONE\<close> and an error signal in \<open>ERROR\<close>, from any
  state.
\<close>

theorem handlers_set_state_from_any_state:
  assumes "findGuzzleTask w nm = Some a"
  shows "(\<exists>w'. task_start c now nm w = Inr w' \<and> state (heap w' a) = STARTED)
       \<and> (\<exists>w'. task_stop c now nm w = Inr w' \<and> state (heap w' a) = DONE)
       \<and> (\<exists>w'. task_err c now nm w = Inr w' \<and> state (heap w' a) = ERROR)"
  using assms by (simp add: task_start_def task_stop_def task_err_def Let_def)

theorem handlers_set_state_from_any_state_witness:
  "findGuzzleTask css_done ''css'' = Some 0 \<and> state (heap css_done 0) = DONE
   \<and> (\<exists>w'. task_start plain 7 ''css'' css_done = Inr w' \<and> state (heap w' 0) = STARTED)
   \<and> (\<exists>w'. task_stop plain 7 ''css'' css_done = Inr w' \<and> state (heap w' 0) = DONE)
   \<and> (\<exists>w'. task_err plain 7 ''css'' css_done = Inr w' \<and> state (heap w' 0) = ERROR)"
  using handlers_set_state_from_any_state [OF find_css(2), of plain 7] find_css(2)
  by (simp add: css_done_def)

lemma findGuzzleTask_cong:
  assumes "guzzleTasks w' = guzzleTasks w" "\<And>x. name (heap w' x) = name (heap w x)"
  shows "findGuzzleTask w' = findGuzzleTask w"
  using assms by (simp add: findGuzzleTask_def fun_eq_iff)

section \<open>Resolution\<close>

lemma findGuzzleTask_name: "findGuzzleTask w s = Some a \<Longrightarrow> name (heap w a) = s"
  by (auto simp: findGuzzleTask_def find_Some_iff)

lemma resolve_ok:
  "list_all (found w) ds \<Longrightarrow>
     \<exists>rs. resolve w ds = Inr rs \<and> map (\<lambda>b. name (heap w b)) rs = map (dependency_name w) ds"
proof (induction ds)
  case Nil
  show ?case by simp
next
  case (Cons d ds)
  then obtain rs where rs: "resolve w ds = Inr rs"
    "map (\<lambda>b. name (heap w b)) rs = map (dependency_name w) ds" by auto
  show ?case
  proof (cases d)
    case (Task b)
    with rs show ?thesis by simp
  next
    case (Name s)
    with Cons.prems obtain a where a: "findGuzzleTask w s = Some a" by auto
    with Name rs show ?thesis by (simp add: findGuzzleTask_name)
  qed
qed

lemma resolve_first_missing:
  "list_all (found w) ds1 \<Longrightarrow> findGuzzleTask w s = None \<Longrightarrow>
     resolve w (ds1 @ Name s # ds2) = Inl (Error (''task not found: '' @ s))"
proof (induction ds1)
  case Nil
  then show ?case by simp
next
  case (Cons d ds1)
  show ?case
  proof (cases d)
    case (Task b)
    with Cons show ?thesis by simp
  next
    case (Name s')
    with Cons show ?thesis by auto
  qed
qed

lemma found_cong:
  assumes "guzzleTasks w' = guzzleTasks w" "\<And>x. name (heap w' x) = name (heap w x)"
  shows "found w' = found w"
proof
  fix d show "found w' d = found w d"
    using findGuzzleTask_cong [OF assms] by (cases d) simp_all
qed

lemma dependency_name_cong:
  assumes "\<And>x. name (heap w' x) = name (heap w x)"
  shows "dependency_name w' = dependency_name w"
proof
  fix d show "dependency_name w' d = dependency_name w d"
    using assms by (cases d) simp_all
qed

lemma found_resolved: "list_all (found w) (map Task rs)"
  by (induction rs) simp_all

lemma dependency_name_resolved:
  "map (dependency_name w) (map Task rs) = map (\<lambda>b. name (heap w b)) rs"
  by (induction rs) simp_all

text \<open>One round of the loop on a task that has a name and whose dependencies resolve.\<close>

lemma makeGulpTasks_step:
  assumes "registrable w a"
  shows "\<exists>rs w2. makeGulpTasks_from (a # as) w = makeGulpTasks_from as w2
           \<and> w2 = (upd_task a (\<lambda>t. t\<lparr>dependencies := map Task rs\<rparr>) w)
                    \<lparr>gulpTasks := gulpTasks w @ [registration w a]\<rparr>
           \<and> map (dependency_name w) (map Task rs) =
               map (dependency_name w) (dependencies (heap w a))"
proof -
  from assms have nm: "name (heap w a) \<noteq> []" and f: "list_all (found w) (dependencies (heap w a))"
    by (simp_all add: registrable_def)
  from resolve_ok [OF f] obtain rs where rs: "resolve w (dependencies (heap w a)) = Inr rs"
    "map (\<lambda>b. name (heap w b)) rs = map (dependency_name w) (dependencies (heap w a))" by blast
  define w1 where "w1 = upd_task a (\<lambda>t. t\<lparr>dependencies := map Task rs\<rparr>) w"
  have d1: "\<And>x. name (heap w1 x) = name (heap w x)"
    "onDoneFunction (heap w1 a) = onDoneFunction (heap w a)" "gulpTasks w1 = gulpTasks w"
    by (simp_all add: w1_def)
  have g: "gulp_task (name (heap w a)) (map (\<lambda>b. name (heap w b)) rs) (onDoneFunction (heap w a)) w1 =
      Inr (w1\<lparr>gulpTasks := gulpTasks w @ [registration w a]\<rparr>)"
    unfolding gulp_task_def registration_def rs(2) using nm by (simp add: d1)
  have "makeGulpTasks_from (a # as) w =
      makeGulpTasks_from as (w1\<lparr>gulpTasks := gulpTasks w @ [registration w a]\<rparr>)"
    using rs(1) g by (simp add: Let_def w1_def [symmetric] d1)
  moreover have "map (dependency_name w) (map Task rs) =
      map (dependency_name w) (dependencies (heap w a))"
    using rs(2) by (simp only: dependency_name_resolved)
  ultimately show ?thesis unfolding w1_def by blast
qed

lemma registration_cong:
  assumes "\<And>x. name (heap w' x) = name (heap w x)"
    "onDoneFunction (heap w' a) = onDoneFunction (heap w a)"
    "map (dependency_name w) (dependencies (heap w' a)) = map (dependency_name w) (dependencies (heap w a))"
  shows "registration w' a = registration w a"
proof -
  have dn: "dependency_name w' = dependency_name w"
    by (rule dependency_name_cong) (rule assms(1))
  show ?thesis using assms by (simp add: registration_def dn)
qed

lemma makeGulpTasks_from_ok:
  assumes "\<forall>x \<in> set as. registrable w x"
  shows "\<exists>w'. makeGulpTasks_from as w = Inr w'
     \<and> guzzleTasks w' = guzzleTasks w \<and> graphFilename w' = graphFilename w
     \<and> graphs w' = graphs w \<and> startCalls w' = startCalls w
     \<and> (\<forall>x. name (heap w' x) = name (heap w x)
            \<and> onDoneFunction (heap w' x) = onDoneFunction (heap w x)
            \<and> map (dependency_name w) (dependencies (heap w' x)) =
                map (dependency_name w) (dependencies (heap w x)))
     \<and> (\<forall>x \<in> set as. \<forall>s. Name s \<notin> set (dependencies (heap w' x)))
     \<and> (\<forall>x. x \<notin> set as \<longrightarrow> heap w' x = heap w x)
     \<and> gulpTasks w' = gulpTasks w @ map (registration w) as"
  using assms
proof (induction as arbitrary: w)
  case Nil
  show ?case by simp
next
  case (Cons a as)
  from Cons.prems have ra: "registrable w a" by simp
  from makeGulpTasks_step [OF ra, of as] obtain objs w2 where
    run: "makeGulpTasks_from (a # as) w = makeGulpTasks_from as w2"
    and w2: "w2 = (upd_task a (\<lambda>t. t\<lparr>dependencies := map Task objs\<rparr>) w)
                   \<lparr>gulpTasks := gulpTasks w @ [registration w a]\<rparr>"
    and objs: "map (dependency_name w) (map Task objs) =
               map (dependency_name w) (dependencies (heap w a))" by blast
  define rs where "rs = map Task objs"
  have rs: "map (dependency_name w) rs = map (dependency_name w) (dependencies (heap w a))"
    "\<forall>s. Name s \<notin> set rs" using objs by (auto simp: rs_def)
  have frs: "list_all (found w2) rs" unfolding rs_def by (rule found_resolved)
  have same: "guzzleTasks w2 = guzzleTasks w" "graphFilename w2 = graphFilename w"
    "graphs w2 = graphs w" "startCalls w2 = startCalls w"
    "gulpTasks w2 = gulpTasks w @ [registration w a]"
    "\<And>x. name (heap w2 x) = name (heap w x)"
    "\<And>x. onDoneFunction (heap w2 x) = onDoneFunction (heap w x)"
    "dependencies (heap w2 a) = rs"
    "\<And>x. x \<noteq> a \<Longrightarrow> heap w2 x = heap w x"
    by (simp_all add: w2 rs_def)
  have dn: "dependency_name w2 = dependency_name w"
    by (rule dependency_name_cong) (rule same(6))
  have fd: "found w2 = found w"
    by (rule found_cong) (rule same(1), rule same(6))
  have deps2: "map (dependency_name w) (dependencies (heap w2 x)) =
               map (dependency_name w) (dependencies (heap w x))" for x
    using rs(1) same(8,9) by (cases "x = a") simp_all
  have reg2: "registration w2 x = registration w x" for x
    by (rule registration_cong) (rule same(6), rule same(7), rule deps2)
  have "\<forall>x \<in> set as. registrable w2 x"
  proof
    fix x assume x: "x \<in> set as"
    show "registrable w2 x"
    proof (cases "x = a")
      case True
      then show ?thesis using ra frs
        by (simp add: registrable_def same(6,8))
    next
      case False
      with x Cons.prems show ?thesis by (simp add: registrable_def fd same(6,9))
    qed
  qed
  from Cons.IH [OF this] obtain w' where w':
    "makeGulpTasks_from as w2 = Inr w'"
    "guzzleTasks w' = guzzleTasks w2" "graphFilename w' = graphFilename w2"
    "graphs w' = graphs w2" "startCalls w' = startCalls w2"
    "\<And>x. name (heap w' x) = name (heap w2 x)"
    "\<And>x. onDoneFunction (heap w' x) = onDoneFunction (heap w2 x)"
    "\<And>x. map (dependency_name w2) (dependencies (heap w' x)) =
           map (dependency_name w2) (dependencies (heap w2 x))"
    "\<forall>x \<in> set as. \<forall>s. Name s \<notin> set (dependencies (heap w' x))"
    "\<And>x. x \<notin> set as \<Longrightarrow> heap w' x = heap w2 x"
    "gulpTasks w' = gulpTasks w2 @ map (registration w2) as" by blast
  have a_done: "\<forall>s. Name s \<notin> set (dependencies (heap w' a))"
  proof (cases "a \<in> set as")
    case True
    with w'(9) show ?thesis by blast
  next
    case False
    then show ?thesis using w'(10) [of a] rs(2) same(8) by simp
  qed
  have "makeGulpTasks_from (a # as) w = Inr w'
     \<and> guzzleTasks w' = guzzleTasks w \<and> graphFilename w' = graphFilename w
     \<and> graphs w' = graphs w \<and> startCalls w' = startCalls w
     \<and> (\<forall>x. name (heap w' x) = name (heap w x)
            \<and> onDoneFunction (heap w' x) = onDoneFunction (heap w x)
            \<and> map (dependency_name w) (dependencies (heap w' x)) =
                map (dependency_name w) (dependencies (heap w x)))
     \<and> (\<forall>x \<in> set (a # as). \<forall>s. Name s \<notin> set (dependencies (heap w' x)))
     \<and> (\<forall>x. x \<notin> set (a # as) \<longrightarrow> heap w' x = heap w x)
     \<and> gulpTasks w' = gulpTasks w @ map (registration w) (a # as)"
    using run w'(1-7) w'(8) [unfolded dn] w'(9) w'(10) w'(11) a_done same(1-7) same(9) deps2 reg2
    by simp
  then show ?case by blast
qed

lemma makeGulpTasks_from_append:
  "makeGulpTasks_from (xs @ ys) w =
     (case makeGulpTasks_from xs w of Inl e \<Rightarrow> Inl e | Inr w' \<Rightarrow> makeGulpTasks_from ys w')"
  by (induction xs arbitrary: w) (simp_all add: Let_def split: sum.splits)

text \<open>
  Claim C2 as amended. Take the first string entry, in the order of declaration of the
  tasks and of the entries of each dependency list, that is the name of no declared
  task: all the tasks before its task have names and dependencies that resolve, and so
  do the entries before it in its list. Then \<open>makeGulpTasks\<close> throws, and so does the
  start: the message is \<open>task not found:\<close> followed by that entry, and it says nothing
  else. By then exactly the tasks before the failing one have been passed to
  \<open>gulp.task\<close>, each with its name, the names of its dependencies and its wrapper; the
  failing task and the tasks after it have not, no graph is written and the original
  start of gulp is not called.
\<close>

theorem missing_dependency_aborts_start:
  assumes "guzzleTasks w = pre @ b # post"
    and "list_all (registrable w) pre"
    and "dependencies (heap w b) = ds1 @ Name s # ds2"
    and "list_all (found w) ds1"
    and "findGuzzleTask w s = None"
  shows "\<exists>w'. makeGulpTasks w = Inl (Error (''task not found: '' @ s), w')
      \<and> gulp_start w = Inl (Error (''task not found: '' @ s), w')
      \<and> gulpTasks w' = gulpTasks w @ map (registration w) pre
      \<and> startCalls w' = startCalls w \<and> graphs w' = graphs w"
proof -
  from assms(2) have pre: "\<forall>x \<in> set pre. registrable w x" by (simp add: list_all_iff)
  from makeGulpTasks_from_ok [OF pre] obtain w1 where w1:
    "makeGulpTasks_from pre w = Inr w1" "guzzleTasks w1 = guzzleTasks w"
    "graphs w1 = graphs w" "startCalls w1 = startCalls w"
    "\<And>x. name (heap w1 x) = name (heap w x)"
    "\<And>x. x \<notin> set pre \<Longrightarrow> heap w1 x = heap w x"
    "gulpTasks w1 = gulpTasks w @ map (registration w) pre" by blast
  have "b \<notin> set pre"
  proof
    assume "b \<in> set pre"
    with pre have "list_all (found w) (dependencies (heap w b))" by (simp add: registrable_def)
    with assms(3,5) show False by simp
  qed
  then have b: "dependencies (heap w1 b) = ds1 @ Name s # ds2" using w1(6) assms(3) by simp
  have fd: "found w1 = found w" by (rule found_cong) (rule w1(2), rule w1(5))
  have fg: "findGuzzleTask w1 = findGuzzleTask w"
    by (rule findGuzzleTask_cong) (rule w1(2), rule w1(5))
  have "resolve w1 (dependencies (heap w1 b)) = Inl (Error (''task not found: '' @ s))"
    unfolding b using assms(4,5) by (intro resolve_first_missing) (simp_all add: fd fg)
  then have "makeGulpTasks_from (b # post) w1 = Inl (Error (''task not found: '' @ s), w1)"
    by simp
  then have "makeGulpTasks w = Inl (Error (''task not found: '' @ s), w1)"
    using w1(1) by (simp add: makeGulpTasks_def assms(1) makeGulpTasks_from_append)
  then have "makeGulpTasks w = Inl (Error (''task not found: '' @ s), w1)
      \<and> gulp_start w = Inl (Error (''task not found: '' @ s), w1)
      \<and> gulpTasks w1 = gulpTasks w @ map (registration w) pre
      \<and> startCalls w1 = startCalls w \<and> graphs w1 = graphs w"
    using w1(3,4,7) by (simp add: gulp_start_def)
  then show ?thesis by blast
qed

lemma missing_declared_facts:
  "guzzleTasks missing_declared = [0, 1]"
  "name (heap missing_declared 0) = ''a''" "name (heap missing_declared (Suc 0)) = ''build''"
  "dependencies (heap missing_declared 0) = []"
  "dependencies (heap missing_declared (Suc 0)) = [Name ''missing'']"
  "onDoneFunction (heap missing_declared 0) = Some 0"
  "gulpTasks missing_declared = []" "startCalls missing_declared = 0"
  "graphs missing_declared = []"
  by (simp_all add: missing_declared_def new_GuzzleTask_def init_def Let_def)

text \<open>
  Claim C2 says that the message of the error names the missing dependency and the task
  that refers to it. For the task \<open>build\<close> that depends on \<open>missing\<close> the message is
  \<open>task not found: missing\<close>, without the name \<open>build\<close>; the task \<open>a\<close> declared
  before it has been passed to \<open>gulp.task\<close> by then.
\<close>

theorem missing_dependency_message_counterexample:
  "thrown (gulp_start missing_declared) =
     Some (Error ''task not found: missing'', [(''a'', [], Some 0)])
   \<and> \<not> occurs_in ''build'' ''task not found: missing''"
  by (simp add: thrown_def gulp_start_def makeGulpTasks_def findGuzzleTask_def gulp_task_def
      missing_declared_facts Let_def)

theorem missing_dependency_aborts_start_witness:
  "guzzleTasks missing_declared = [0] @ 1 # []
   \<and> list_all (registrable missing_declared) [0]
   \<and> dependencies (heap missing_declared 1) = [] @ Name ''missing'' # []
   \<and> list_all (found missing_declared) []
   \<and> findGuzzleTask missing_declared ''missing'' = None
   \<and> (\<exists>w'. makeGulpTasks missing_declared = Inl (Error ''task not found: missing'', w')
         \<and> gulp_start missing_declared = Inl (Error ''task not found: missing'', w')
         \<and> gulpTasks w' = [(''a'', [], Some 0)]
         \<and> startCalls w' = 0 \<and> graphs w' = [])"
proof -
  have h: "guzzleTasks missing_declared = [0] @ 1 # []"
    "list_all (registrable missing_declared) [0]"
    "dependencies (heap missing_declared 1) = [] @ Name ''missing'' # []"
    "list_all (found missing_declared) []"
    "findGuzzleTask missing_declared ''missing'' = None"
    by (simp_all add: findGuzzleTask_def registrable_def missing_declared_facts)
  have r: "map (registration missing_declared) [0] = [(''a'', [], Some 0)]"
    by (simp add: registration_def missing_declared_facts)
  from missing_dependency_aborts_start [OF h] r
  have "\<exists>w'. makeGulpTasks missing_declared = Inl (Error ''task not found: missing'', w')
         \<and> gulp_start missing_declared = Inl (Error ''task not found: missing'', w')
         \<and> gulpTasks w' = [(''a'', [], Some 0)]
         \<and> startCalls w' = 0 \<and> graphs w' = []"
    by (simp add: missing_declared_facts)
  with h show ?thesis by blast
qed

text \<open>A task without a name is refused by \<open>gulp.task\<close> before the loop gets to the task
  with the missing dependency.\<close>

lemma unnamed_task_aborts_start:
  "thrown (gulp_start unnamed_declared) = Some (Error ''Task requires a name'', [])"
  by (simp add: thrown_def gulp_start_def makeGulpTasks_def gulp_task_def unnamed_declared_def
      new_GuzzleTask_def init_def Let_def)

section \<open>Task graph\<close>

lemma push_edge_fold:
  "\<forall>s. Name s \<notin> set ds \<Longrightarrow> foldl (push_edge w t) r ds = r @ map (spec_edge w t) ds"
proof (induction ds arbitrary: r)
  case Nil
  show ?case by simp
next
  case (Cons d ds)
  then obtain b where d: "d = Task b" by (cases d) auto
  have "push_edge w t r d = r @ [spec_edge w t d]"
    by (simp add: d push_edge_def spec_edge_def undefined_text_def)
  then show ?case using Cons by simp
qed

lemma push_task_resolved:
  "\<forall>s. Name s \<notin> set (dependencies (heap w a)) \<Longrightarrow> push_task w r a = r @ spec_task w a"
  by (simp add: push_task_def spec_task_def spec_node_def attr_def push_edge_fold Let_def)

lemma push_task_fold:
  "\<forall>a \<in> set as. \<forall>s. Name s \<notin> set (dependencies (heap w a)) \<Longrightarrow>
     foldl (push_task w) r as = r @ concat (map (spec_task w) as)"
  by (induction as arbitrary: r) (simp_all add: push_task_resolved)

lemma spec_task_cong:
  assumes "\<And>x. name (heap w' x) = name (heap w x)"
    "onDoneFunction (heap w' a) = onDoneFunction (heap w a)"
    "map (dependency_name w) (dependencies (heap w' a)) = map (dependency_name w) (dependencies (heap w a))"
  shows "spec_task w' a = spec_task w a"
proof -
  have dn: "dependency_name w' = dependency_name w"
    by (rule dependency_name_cong) (rule assms(1))
  let ?e = "\<lambda>n. dq @ name (heap w a) @ dq @ '' -> '' @ dq @ n @ dq @ '';''"
  have "map ?e (map (dependency_name w) (dependencies (heap w' a))) =
        map ?e (map (dependency_name w) (dependencies (heap w a)))" using assms(3) by simp
  then have edges: "map (spec_edge w' (heap w' a)) (dependencies (heap w' a)) =
      map (spec_edge w (heap w a)) (dependencies (heap w a))"
    by (simp add: spec_edge_def [abs_def] dn assms(1) comp_def)
  from assms(3) have "length (dependencies (heap w' a)) = length (dependencies (heap w a))"
    by (metis length_map)
  then have "(dependencies (heap w' a) = []) = (dependencies (heap w a) = [])" by auto
  then have "spec_node (heap w' a) = spec_node (heap w a)"
    using assms(1,2) by (simp add: spec_node_def)
  with edges show ?thesis by (simp add: spec_task_def)
qed

lemma length_spec_graph:
  "length (spec_graph w) =
     2 + length (guzzleTasks w) + sum_list (map (\<lambda>a. length (dependencies (heap w a))) (guzzleTasks w))"
proof -
  have "length (concat (map (spec_task w) as)) =
          length as + sum_list (map (\<lambda>a. length (dependencies (heap w a))) as)" for as
    by (induction as) (simp_all add: spec_task_def)
  then show ?thesis by (simp add: spec_graph_def)
qed

text \<open>
  Claim C5. A start with a graph file configured, on declared tasks that all have a
  name and dependencies that resolve, hands one text to the renderer. Between its first
  and its last line the text has one block for every task, in the order of declaration:
  the node declaration of the task, with shape \<open>box\<close> when its dependency list is not
  empty and \<open>ellipse\<close> when it is, and style \<open>solid\<close> when it has a body and \<open>dashed\<close>
  when it has none, followed by one edge from the name of the task to the name of each
  entry of its dependency list, in the order of the list. So there is one node
  declaration for every task and one edge for every dependency entry, and the text is a
  function of the declared tasks.
\<close>

theorem graph_lines_follow_declaration_order:
  assumes "graphFilename w = Some file" and "list_all (registrable w) (guzzleTasks w)"
  shows "\<exists>w'. gulp_start w = Inr w'
      \<and> graphs w' = graphs w @ [(file, join nl (spec_graph w))]
      \<and> length (spec_graph w) =
          2 + length (guzzleTasks w)
            + sum_list (map (\<lambda>a. length (dependencies (heap w a))) (guzzleTasks w))
      \<and> gulpTasks w' = gulpTasks w @ map (registration w) (guzzleTasks w)
      \<and> startCalls w' = Suc (startCalls w)"
proof -
  from assms(2) have all: "\<forall>x \<in> set (guzzleTasks w). registrable w x" by (simp add: list_all_iff)
  from makeGulpTasks_from_ok [OF all] obtain w1 where w1:
    "makeGulpTasks_from (guzzleTasks w) w = Inr w1" "guzzleTasks w1 = guzzleTasks w"
    "graphFilename w1 = graphFilename w" "graphs w1 = graphs w" "startCalls w1 = startCalls w"
    "\<And>x. name (heap w1 x) = name (heap w x)"
    "\<And>x. onDoneFunction (heap w1 x) = onDoneFunction (heap w x)"
    "\<And>x. map (dependency_name w) (dependencies (heap w1 x)) =
           map (dependency_name w) (dependencies (heap w x))"
    "\<forall>x \<in> set (guzzleTasks w). \<forall>s. Name s \<notin> set (dependencies (heap w1 x))"
    "gulpTasks w1 = gulpTasks w @ map (registration w) (guzzleTasks w)" by blast
  have "graph_lines w1 = ''digraph G {'' # concat (map (spec_task w1) (guzzleTasks w)) @ [''}'']"
    using push_task_fold [of "guzzleTasks w" w1] w1(9) by (simp add: graph_lines_def w1(2))
  also have "map (spec_task w1) (guzzleTasks w) = map (spec_task w) (guzzleTasks w)"
    by (rule map_cong [OF refl]) (rule spec_task_cong, rule w1(6), rule w1(7), rule w1(8))
  finally have lines: "graph_lines w1 = spec_graph w" by (simp add: spec_graph_def)
  define w' where "w' = (outputTaskGraph w1)\<lparr>startCalls := Suc (startCalls (outputTaskGraph w1))\<rparr>"
  have start: "gulp_start w = Inr w'"
    using w1(1,3) assms(1) by (simp add: gulp_start_def makeGulpTasks_def w'_def Let_def)
  have "graphs w' = graphs w @ [(file, join nl (spec_graph w))]"
    "gulpTasks w' = gulpTasks w @ map (registration w) (guzzleTasks w)"
    "startCalls w' = Suc (startCalls w)"
    using w1(3,4,5,10) assms(1) lines by (simp_all add: w'_def outputTaskGraph_def)
  with start length_spec_graph [of w] show ?thesis by blast
qed

lemma ab_graph_facts:
  "guzzleTasks ab_graph = [0, 1]" "graphFilename ab_graph = Some ''graph.svg''"
  "name (heap ab_graph 0) = ''a''" "name (heap ab_graph (Suc 0)) = ''b''"
  "dependencies (heap ab_graph 0) = []"
  "dependencies (heap ab_graph (Suc 0)) = [Name ''a'']"
  "onDoneFunction (heap ab_graph 0) = Some 0"
  "onDoneFunction (heap ab_graph (Suc 0)) = None"
  "graphs ab_graph = []"
  by (simp_all add: ab_graph_def ab_declared_def new_GuzzleTask_def init_def Let_def)

theorem graph_lines_follow_declaration_order_witness:
  "graphFilename ab_graph = Some ''graph.svg''
   \<and> list_all (registrable ab_graph) (guzzleTasks ab_graph)
   \<and> (\<exists>w'. gulp_start ab_graph = Inr w'
         \<and> graphs w' =
             [(''graph.svg'',
               join nl [''digraph G {'',
                        dq @ ''a'' @ dq @ '' [shape=ellipse,style=solid];'',
                        dq @ ''b'' @ dq @ '' [shape=box,style=dashed];'',
                        dq @ ''b'' @ dq @ '' -> '' @ dq @ ''a'' @ dq @ '';'',
                        ''}''])])"
proof -
  have h: "graphFilename ab_graph = Some ''graph.svg''"
    "list_all (registrable ab_graph) (guzzleTasks ab_graph)"
    by (simp_all add: registrable_def findGuzzleTask_def ab_graph_facts)
  have g: "spec_graph ab_graph =
      [''digraph G {'',
       dq @ ''a'' @ dq @ '' [shape=ellipse,style=solid];'',
       dq @ ''b'' @ dq @ '' [shape=box,style=dashed];'',
       dq @ ''b'' @ dq @ '' -> '' @ dq @ ''a'' @ dq @ '';'',
       ''}'']"
    by (simp add: spec_graph_def spec_task_def spec_node_def spec_edge_def ab_graph_facts)
  from graph_lines_follow_declaration_order [OF h]
  obtain w' where "gulp_start ab_graph = Inr w'"
    "graphs w' = graphs ab_graph @ [(''graph.svg'', join nl (spec_graph ab_graph))]" by blast
  then have "\<exists>w'. gulp_start ab_graph = Inr w'
         \<and> graphs w' =
             [(''graph.svg'',
               join nl [''digraph G {'',
                        dq @ ''a'' @ dq @ '' [shape=ellipse,style=solid];'',
                        dq @ ''b'' @ dq @ '' [shape=box,style=dashed];'',
                        dq @ ''b'' @ dq @ '' -> '' @ dq @ ''a'' @ dq @ '';'',
                        ''}''])]"
    unfolding g by (simp add: ab_graph_facts del: join.simps)
  with h show ?thesis by blast
qed

section \<open>Run-once tasks\<close>

lemma once_declared_facts:
  "guzzleTasks once_declared = [0]" "name (heap once_declared 0) = ''once''"
  "runOnce (heap once_declared 0)" "onDoneFunction (heap once_declared 0) = Some 0"
  "state (heap once_declared 0) = NOT_STARTED" "stream (heap once_declared 0) = None"
  by (simp_all add: once_declared_def new_GuzzleTask_def init_def Let_def)

lemma again_declared_facts:
  "guzzleTasks again_declared = [0]" "name (heap again_declared 0) = ''again''"
  "\<not> runOnce (heap again_declared 0)" "onDoneFunction (heap again_declared 0) = Some 0"
  "state (heap again_declared 0) = NOT_STARTED" "stream (heap again_declared 0) = None"
  by (simp_all add: again_declared_def new_GuzzleTask_def init_def Let_def)

lemma runOnce_wrapper_after_start:
  assumes "findGuzzleTask w nm = Some a" "runOnce (heap w a)"
    "task_start c now nm w = Inr w1"
  shows "onDoneFunction_wrapper bodies a f w1 = (CalledBack, w1)"
proof -
  from assms(1,3) have "state (heap w1 a) = STARTED" "runOnce (heap w1 a) = runOnce (heap w a)"
    by (auto simp: task_start_def Let_def split: if_splits)
  with assms(2) show ?thesis by (simp add: onDoneFunction_wrapper_def)
qed

lemma task_start_preserves:
  assumes "task_start c now nm w = Inr w'"
  shows "guzzleTasks w' = guzzleTasks w" "name (heap w' x) = name (heap w x)"
    "runOnce (heap w' x) = runOnce (heap w x)"
    "onDoneFunction (heap w' x) = onDoneFunction (heap w x)"
  using assms by (auto simp: task_start_def Let_def split: option.splits if_splits)

lemma task_stop_preserves:
  assumes "task_stop c now nm w = Inr w'"
  shows "guzzleTasks w' = guzzleTasks w" "name (heap w' x) = name (heap w x)"
    "runOnce (heap w' x) = runOnce (heap w x)"
    "onDoneFunction (heap w' x) = onDoneFunction (heap w x)"
  using assms by (auto simp: task_stop_def Let_def split: option.splits if_splits)

lemma task_start_found:
  "findGuzzleTask w nm = Some a \<Longrightarrow> \<exists>w'. task_start c now nm w = Inr w' \<and> state (heap w' a) = STARTED"
  by (simp add: task_start_def Let_def)

lemma task_stop_found:
  "findGuzzleTask w nm = Some a \<Longrightarrow> \<exists>w'. task_stop c now nm w = Inr w'"
  by (simp add: task_stop_def Let_def)

lemma run_once_activations:
  assumes "findGuzzleTask w (name (heap w a)) = Some a" "runOnce (heap w a)"
  shows "body_calls (activations c bodies a ts w) = Some 0"
  using assms
proof (induction ts arbitrary: w)
  case Nil
  show ?case by (simp add: body_calls_def)
next
  case (Cons t ts)
  obtain t0 t1 where t: "t = (t0, t1)" by (cases t)
  from task_start_found [OF Cons.prems(1)] obtain w1 where
    w1: "task_start c t0 (name (heap w a)) w = Inr w1" "state (heap w1 a) = STARTED" by blast
  note p1 = task_start_preserves [OF w1(1)]
  have once: "runOnce (heap w1 a)" using Cons.prems(2) by (simp add: p1)
  have call: "call_task bodies a w1 = (0, w1)"
    using once w1(2) by (simp add: call_task_def onDoneFunction_wrapper_def split: option.splits)
  have find1: "findGuzzleTask w1 (name (heap w1 a)) = Some a"
    using Cons.prems(1) findGuzzleTask_cong [of w1 w] by (simp add: p1)
  from task_stop_found [OF find1] obtain w3 where
    w3: "task_stop c t1 (name (heap w1 a)) w1 = Inr w3" by blast
  note p3 = task_stop_preserves [OF w3]
  have find3: "findGuzzleTask w3 (name (heap w3 a)) = Some a"
    using find1 findGuzzleTask_cong [of w3 w1] by (simp add: p3)
  have once3: "runOnce (heap w3 a)" using once by (simp add: p3)
  from Cons.IH [OF find3 once3] have "body_calls (activations c bodies a ts w3) = Some 0" .
  then show ?case using t w1(1) call w3
    by (auto simp: body_calls_def split: sum.splits)
qed

text \<open>
  Claim C1 says that the body of a task declared with \<open>runOnce\<close> is called exactly once
  over any number of activations, and that the first activation does call it. The start
  signal of an activation comes before the call of the wrapper and sets the state to
  \<open>STARTED\<close>, so the test \<open>this._state !== State.NOT_STARTED\<close> of the wrapper already
  holds in the first activation: for the task \<open>once\<close> the body has been called 0 times
  after one activation, and 0 times after three.
\<close>

theorem run_once_body_is_never_called:
  "body_calls (activations plain reading 0 [(0, 10)] once_declared) = Some 0
   \<and> body_calls (activations plain reading 0 [(0, 10), (20, 30), (40, 50)] once_declared) = Some 0"
proof -
  have f: "findGuzzleTask once_declared (name (heap once_declared 0)) = Some 0"
    by (simp add: findGuzzleTask_def once_declared_facts)
  have r: "runOnce (heap once_declared 0)" by (rule once_declared_facts)
  show ?thesis by (rule conjI; rule run_once_activations [OF f r])
qed

text \<open>Without \<open>runOnce\<close> every activation calls the body, and the wrapper of a run-once
  task does call the body when no start signal has come before.\<close>

lemma not_run_once_body_is_called_each_time:
  "body_calls (activations plain promising 0 [(0, 10), (20, 30)] again_declared) = Some 2"
  by (simp add: body_calls_def call_task_def onDoneFunction_wrapper_def task_start_def
      task_stop_def findGuzzleTask_def plain_def promising_def
      again_declared_facts Let_def)

lemma run_once_body_runs_without_start_signal:
  "fst (call_task promising 0 once_declared) = 1"
  by (simp add: call_task_def onDoneFunction_wrapper_def promising_def once_declared_facts)

section \<open>Streams of a task\<close>

lemma stream_on_simps [simp]:
  "heap (stream_on s ev l w) = heap w"
  "streams (stream_on s ev l w) = (streams w)(s := (streams w s)\<lparr>listeners := listeners (streams w s) @ [(ev, l)]\<rparr>)"
  "nextStream (stream_on s ev l w) = nextStream w"
  by (simp_all add: stream_on_def)

lemma reset_last:
  "stream (heap (foldl run_listener w (ls @ [ResetStream a])) a) = None"
  by simp

lemma emit_ends_with_reset:
  assumes "filter (\<lambda>p. fst p = ev) (listeners (streams w s)) = ls @ [(ev, ResetStream a)]"
  shows "stream (heap (emit s ev w) a) = None"
  using assms by (simp add: emit_def)

text \<open>
  Claim C8. When the wrapper has called the body and the task has a stream then, the
  wrapper returns that stream, whatever the body returned; it returns what the body
  returned when the task has no stream. On the stream it has registered two listeners,
  for \<open>finish\<close> and for \<open>end\<close>, and after either event the stream field of the task is
  empty.
\<close>

theorem wrapper_prefers_stream_and_resets_it:
  assumes "\<not> (runOnce (heap w this) \<and> state (heap w this) \<noteq> NOT_STARTED)"
    and "bodies f this w = (result, w1)"
  shows "(stream (heap w1 this) = None \<longrightarrow>
            onDoneFunction_wrapper bodies this f w = (Returned result, w1))
       \<and> (\<forall>s. stream (heap w1 this) = Some s \<longrightarrow>
            (\<exists>w2. onDoneFunction_wrapper bodies this f w = (Returned (Stream s), w2)
               \<and> listeners (streams w2 s) =
                   listeners (streams w1 s) @ [(''finish'', ResetStream this), (''end'', ResetStream this)]
               \<and> stream (heap (emit s ''finish'' w2) this) = None
               \<and> stream (heap (emit s ''end'' w2) this) = None))"
proof (intro conjI allI impI)
  assume "stream (heap w1 this) = None"
  with assms show "onDoneFunction_wrapper bodies this f w = (Returned result, w1)"
    by (simp add: onDoneFunction_wrapper_def)
next
  fix s
  assume s: "stream (heap w1 this) = Some s"
  define w2 where "w2 = stream_on s ''end'' (ResetStream this)
                          (stream_on s ''finish'' (ResetStream this) w1)"
  have ret: "onDoneFunction_wrapper bodies this f w = (Returned (Stream s), w2)"
    using assms s by (simp add: onDoneFunction_wrapper_def w2_def)
  have ls: "listeners (streams w2 s) =
      listeners (streams w1 s) @ [(''finish'', ResetStream this), (''end'', ResetStream this)]"
    by (simp add: w2_def)
  have fin: "stream (heap (emit s ''finish'' w2) this) = None"
    by (rule emit_ends_with_reset [where ls = "filter (\<lambda>p. fst p = ''finish'') (listeners (streams w1 s))"])
       (simp add: ls)
  have en: "stream (heap (emit s ''end'' w2) this) = None"
    by (rule emit_ends_with_reset [where ls = "filter (\<lambda>p. fst p = ''end'') (listeners (streams w1 s))"])
       (simp add: ls)
  from ret ls fin en
  show "\<exists>w2. onDoneFunction_wrapper bodies this f w = (Returned (Stream s), w2)
               \<and> listeners (streams w2 s) =
                   listeners (streams w1 s) @ [(''finish'', ResetStream this), (''end'', ResetStream this)]
               \<and> stream (heap (emit s ''finish'' w2) this) = None
               \<and> stream (heap (emit s ''end'' w2) this) = None" by blast
qed

lemma again_declared_streams:
  "nextStream again_declared = 0"
  by (simp add: again_declared_def new_GuzzleTask_def init_def Let_def)

lemma read_again_declared:
  "stream (heap (read 0 again_declared) 0) = Some 0"
  by (simp add: read_def gulp_src_def again_declared_facts again_declared_streams Let_def)

theorem wrapper_prefers_stream_and_resets_it_witness:
  "\<not> (runOnce (heap again_declared 0) \<and> state (heap again_declared 0) \<noteq> NOT_STARTED)
   \<and> reading 0 0 again_declared = (Promise 0, read 0 again_declared)
   \<and> stream (heap (read 0 again_declared) 0) = Some 0
   \<and> (\<exists>w2. onDoneFunction_wrapper reading 0 0 again_declared = (Returned (Stream 0), w2)
         \<and> stream (heap (emit 0 ''finish'' w2) 0) = None
         \<and> stream (heap (emit 0 ''end'' w2) 0) = None)
   \<and> promising 0 0 again_declared = (Promise 0, again_declared)
   \<and> stream (heap again_declared 0) = None
   \<and> onDoneFunction_wrapper promising 0 0 again_declared = (Returned (Promise 0), again_declared)"
proof -
  have h: "\<not> (runOnce (heap again_declared 0) \<and> state (heap again_declared 0) \<noteq> NOT_STARTED)"
    by (simp add: again_declared_facts)
  have r: "reading 0 0 again_declared = (Promise 0, read 0 again_declared)"
    by (simp add: reading_def)
  have p: "promising 0 0 again_declared = (Promise 0, again_declared)"
    by (simp add: promising_def)
  from wrapper_prefers_stream_and_resets_it
      [where bodies = reading and f = 0 and this = 0 and w = again_declared, OF h r]
    read_again_declared
  have 1: "\<exists>w2. onDoneFunction_wrapper reading 0 0 again_declared = (Returned (Stream 0), w2)
         \<and> stream (heap (emit 0 ''finish'' w2) 0) = None
         \<and> stream (heap (emit 0 ''end'' w2) 0) = None" by blast
  from wrapper_prefers_stream_and_resets_it
      [where bodies = promising and f = 0 and this = 0 and w = again_declared, OF h p]
    again_declared_facts(6)
  have 2: "onDoneFunction_wrapper promising 0 0 again_declared = (Returned (Promise 0), again_declared)"
    by blast
  show ?thesis using h r p 1 2 read_again_declared again_declared_facts(6) by blast
qed

lemma emits_without_listener:
  assumes "\<forall>ev \<in> set evs. filter (\<lambda>p. fst p = ev) (listeners (streams w s)) = []"
  shows "emits s evs w = w"
  using assms by (induction evs) (simp_all add: emit_def)

lemma read_stream: "stream (heap (read this w) this) = Some (nextStream w)"
  by (simp add: read_def gulp_src_def stream_pause_def Let_def split: option.splits)

lemma read_nextStream: "nextStream (read this w) = Suc (nextStream w)"
  by (simp add: read_def gulp_src_def stream_pause_def Let_def split: option.splits)

lemma read_listeners_finish:
  "\<forall>p \<in> set (listeners (streams (read this w) (nextStream w))). fst p = ''finish''"
  by (simp add: read_def gulp_src_def stream_pause_def Let_def split: option.splits)

lemma read_after_stream:
  assumes "stream (heap w this) = Some old" "old \<noteq> nextStream w"
  shows "paused (streams (read this w) (nextStream w))"
    "listeners (streams (read this w) old) = listeners (streams w old) @ [(''finish'', Resume (nextStream w))]"
  using assms by (simp_all add: read_def gulp_src_def stream_pause_def Let_def)

text \<open>
  Two calls of \<open>read\<close> on a task, one directly after the other: the second creates its
  stream paused, and that stream stays paused whatever the stream of the first call
  emits, as long as it has not emitted \<open>finish\<close>. The \<open>finish\<close> of the first stream
  resumes it; its \<open>end\<close> does not.
\<close>

lemma second_read_is_paused_until_finish:
  "stream (heap (read this w) this) = Some (nextStream w)
   \<and> stream (heap (read this (read this w)) this) = Some (Suc (nextStream w))
   \<and> paused (streams (read this (read this w)) (Suc (nextStream w)))
   \<and> (\<forall>evs. ''finish'' \<notin> set evs \<longrightarrow>
         paused (streams (emits (nextStream w) evs (read this (read this w))) (Suc (nextStream w))))
   \<and> \<not> paused (streams (emit (nextStream w) ''finish'' (read this (read this w))) (Suc (nextStream w)))"
proof -
  let ?s1 = "nextStream w" and ?w1 = "read this w"
  let ?s2 = "Suc ?s1" and ?w2 = "read this (read this w)"
  have old: "stream (heap ?w1 this) = Some ?s1" by (rule read_stream)
  have nxt: "nextStream ?w1 = ?s2" by (rule read_nextStream)
  have ne: "?s1 \<noteq> nextStream ?w1" by (simp add: nxt)
  have new: "stream (heap ?w2 this) = Some ?s2" using read_stream [of this ?w1] by (simp add: nxt)
  have p: "paused (streams ?w2 ?s2)" using read_after_stream(1) [OF old ne] by (simp add: nxt)
  have ls: "listeners (streams ?w2 ?s1) = listeners (streams ?w1 ?s1) @ [(''finish'', Resume ?s2)]"
    using read_after_stream(2) [OF old ne] by (simp add: nxt)
  have fin: "\<forall>p \<in> set (listeners (streams ?w2 ?s1)). fst p = ''finish''"
    using read_listeners_finish [of this w] by (simp add: ls)
  have stay: "paused (streams (emits ?s1 evs ?w2) ?s2)" if "''finish'' \<notin> set evs" for evs
  proof -
    have "\<forall>ev \<in> set evs. filter (\<lambda>p. fst p = ev) (listeners (streams ?w2 ?s1)) = []"
      using fin that by (auto simp: filter_empty_conv)
    then have "emits ?s1 evs ?w2 = ?w2" by (rule emits_without_listener)
    then show ?thesis using p by simp
  qed
  have "filter (\<lambda>p. fst p = ''finish'') (listeners (streams ?w2 ?s1))
          = filter (\<lambda>p. fst p = ''finish'') (listeners (streams ?w1 ?s1)) @ [(''finish'', Resume ?s2)]"
    by (simp add: ls)
  then have go: "\<not> paused (streams (emit ?s1 ''finish'' ?w2) ?s2)"
    by (simp add: emit_def stream_resume_def)
  show ?thesis using old new p stay go by blast
qed

lemma first_run_facts:
  "stream (heap first_run 0) = Some 0" "nextStream first_run = Suc 0"
  "listeners (streams first_run 0) = [(''finish'', ResetStream 0), (''end'', ResetStream 0)]"
  "\<not> paused (streams first_run 0)"
  "\<not> runOnce (heap first_run 0)" "onDoneFunction (heap first_run 0) = Some 0"
  by (simp_all add: first_run_def call_task_def onDoneFunction_wrapper_def reading_def read_def
      gulp_src_def again_declared_facts again_declared_streams Let_def)

lemma second_run_facts:
  "stream (heap second_run 0) = Some (Suc 0)" "nextStream second_run = 2"
  "listeners (streams second_run 0) =
     [(''finish'', ResetStream 0), (''end'', ResetStream 0), (''finish'', Resume (Suc 0))]"
  "paused (streams second_run (Suc 0))"
  "\<not> runOnce (heap second_run 0)" "onDoneFunction (heap second_run 0) = Some 0"
  by (simp_all add: second_run_def call_task_def onDoneFunction_wrapper_def reading_def read_def
      gulp_src_def stream_pause_def first_run_facts Let_def)

lemma first_finished_facts:
  "stream (heap first_finished 0) = None" "nextStream first_finished = 2"
  "\<not> paused (streams first_finished (Suc 0))"
  "\<not> runOnce (heap first_finished 0)" "onDoneFunction (heap first_finished 0) = Some 0"
  by (simp_all add: first_finished_def emit_def stream_resume_def second_run_facts)

text \<open>
  Claim C7 says that the stream of a later \<open>read\<close> on a task is paused when it is
  created and emits nothing before the stream of the earlier \<open>read\<close> has signalled
  completion, so that at most one source stream of a task is active. The wrapper
  registers on the stream of each run the listeners that empty the stream field, and
  they empty it whatever it holds by then. After two runs of the task \<open>again\<close> the
  stream of the second run is paused and waits for the first; when the first stream
  emits \<open>finish\<close>, its listeners empty the stream field, which held the second stream,
  and resume the second stream. The \<open>read\<close> of a third run then finds no stream to wait
  for: its stream is created unpaused while the second stream, which has emitted
  nothing, is unpaused as well.
\<close>

theorem third_read_is_not_paused:
  "stream (heap second_run 0) = Some 1 \<and> paused (streams second_run 1)
   \<and> stream (heap first_finished 0) = None \<and> \<not> paused (streams first_finished 1)
   \<and> stream (heap third_run 0) = Some 2
   \<and> \<not> paused (streams third_run 1) \<and> \<not> paused (streams third_run 2)"
  by (simp add: second_run_facts first_finished_facts third_run_def call_task_def
      onDoneFunction_wrapper_def reading_def read_def gulp_src_def Let_def)

section \<open>Elapsed time in the console report\<close>

lemma digit_cases: "d < 10 \<Longrightarrow> d \<in> {0, 1, 2, 3, 4, 5, 6, 7, 8, 9 :: nat}"
  by auto

lemma digit_value_digits:
  "digit_value (digit 0) = 0" "digit_value (digit 1) = 1" "digit_value (digit 2) = 2"
  "digit_value (digit 3) = 3" "digit_value (digit 4) = 4" "digit_value (digit 5) = 5"
  "digit_value (digit 6) = 6" "digit_value (digit 7) = 7" "digit_value (digit 8) = 8"
  "digit_value (digit 9) = 9"
  by (simp_all add: digit_def digit_value_def)

lemma digit_value_digit: "d < 10 \<Longrightarrow> digit_value (digit d) = d"
  using digit_cases [of d] digit_value_digits by auto

lemma number_of_snoc: "number_of (ds @ [c]) = 10 * number_of ds + digit_value c"
  by (simp add: number_of_def)

lemma digits_decimal: "is_decimal (digits n) \<and> number_of (digits n) = n"
proof (induction n rule: digits.induct)
  case (1 n)
  show ?case
  proof (cases "10 \<le> n")
    case True
    then have d: "digits n = digits (n div 10) @ [digit (n mod 10)]" by (subst digits.simps) simp
    from 1 True have ih: "is_decimal (digits (n div 10))" "number_of (digits (n div 10)) = n div 10"
      by simp_all
    have m: "digit_value (digit (n mod 10)) = n mod 10" by (rule digit_value_digit) simp
    show ?thesis using ih m by (simp add: d number_of_snoc is_decimal_def)
  next
    case False
    then have d: "digits n = [digit n]" by (subst digits.simps) simp
    from False have "digit_value (digit n) = n" by (intro digit_value_digit) simp
    then show ?thesis using False by (simp add: d is_decimal_def number_of_def)
  qed
qed

lemma join_middle:
  "join sep (map f (pre @ a # post)) =
     concat (map (\<lambda>x. f x @ sep) pre) @ f a @ concat (map (\<lambda>x. sep @ f x) post)"
proof (induction pre)
  case Nil
  have "join sep (y # map f zs) = y @ concat (map (\<lambda>x. sep @ f x) zs)" for y zs
    by (induction zs arbitrary: y) simp_all
  then show ?case by simp
next
  case (Cons p pre)
  obtain y ys where "map f (pre @ a # post) = y # ys" by (cases "pre @ a # post") auto
  with Cons show ?case by simp
qed

lemma elapsed_text_ms:
  assumes "0 \<le> e" "e \<le> 1000"
  shows "\<exists>ds. elapsed_text e = ds @ ''ms'' \<and> is_decimal ds \<and> int (number_of ds) = e"
proof -
  have "elapsed_text e = digits (nat e) @ ''ms''"
    using assms by (simp add: elapsed_text_def Number_toString_def)
  with digits_decimal [of "nat e"] assms(1) show ?thesis by auto
qed

lemma elapsed_text_s:
  assumes "1000 < e"
  shows "\<exists>qs r. elapsed_text e = qs @ (if r = 0 then [] else ''.'' @ [digit r]) @ ''s''
           \<and> is_decimal qs \<and> r < 10
           \<and> 100 * (10 * int (number_of qs) + int r) - 50 \<le> e
           \<and> e < 100 * (10 * int (number_of qs) + int r) + 50"
proof -
  define n where "n = Math_round_div100 e"
  define q where "q = nat (n div 10)"
  define r where "r = nat (n mod 10)"
  have n: "100 * n \<le> e + 50" "e + 50 < 100 * n + 100"
    unfolding n_def Math_round_div100_def by presburger+
  have n10: "10 \<le> n" using assms n by linarith
  then have q0: "0 \<le> n div 10" by (simp add: pos_imp_zdiv_nonneg_iff)
  have m0: "0 \<le> n mod 10" "n mod 10 < 10" by simp_all
  have iq: "int q = n div 10" using q0 by (simp add: q_def)
  have ir: "int r = n mod 10" using m0 by (simp add: r_def)
  have nq: "n = 10 * int q + int r" unfolding iq ir by simp
  have r: "r < 10" using m0 unfolding r_def by linarith
  then have dr: "digits r = [digit r]" by (subst digits.simps) simp
  have r0: "(n mod 10 = 0) = (r = 0)" using ir by linarith
  have t: "tenths_toString n = digits q @ (if r = 0 then [] else ''.'' @ [digit r])"
    using q0 m0 by (simp add: tenths_toString_def Number_toString_def q_def [symmetric]
        r_def [symmetric] dr r0)
  have fmt: "elapsed_text e = digits q @ (if r = 0 then [] else ''.'' @ [digit r]) @ ''s''"
    using assms by (simp add: elapsed_text_def n_def [symmetric] t)
  have b: "100 * (10 * int q + int r) - 50 \<le> e" "e < 100 * (10 * int q + int r) + 50"
    using n unfolding nq [symmetric] by linarith+
  from digits_decimal [of q] have dq: "is_decimal (digits q)" "number_of (digits q) = q"
    by simp_all
  have "elapsed_text e = digits q @ (if r = 0 then [] else ''.'' @ [digit r]) @ ''s''
           \<and> is_decimal (digits q) \<and> r < 10
           \<and> 100 * (10 * int (number_of (digits q)) + int r) - 50 \<le> e
           \<and> e < 100 * (10 * int (number_of (digits q)) + int r) + 50"
    unfolding dq(2) using fmt dq(1) r b by (intro conjI)
  then show ?thesis by blast
qed

lemma elapsed_text_not_empty: "elapsed_text e \<noteq> []"
  by (simp add: elapsed_text_def)

text \<open>
  Claim C9 as amended. In the snapshot that \<open>printTasks\<close> writes, the line of a task
  that has started ends with its elapsed time in parentheses. For a task that is
  \<open>DONE\<close> the time is counted from \<open>started\<close> to \<open>ended\<close>, and for a task that has
  never finished, to the current time. Up to 1000 it is printed as the decimal number of
  milliseconds followed by \<open>ms\<close>. Above 1000 it is printed in seconds, rounded to the
  nearest tenth: the whole seconds, then a point and the tenths unless they are 0, then
  \<open>s\<close>. The dates are dates since 1970.
\<close>

theorem started_task_elapsed_suffix:
  assumes "guzzleTasks w = pre @ a # post"
    and "started (heap w a) = Some s" and "0 \<le> s" and "s \<le> fin"
    and "fin \<le> 8640000000000000"
    and "(state (heap w a) = DONE \<and> ended (heap w a) = Some fin)
         \<or> (ended (heap w a) = None \<and> fin = now)"
  shows "\<exists>txt.
           stdout (printTasks c now w) = stdout w @
             [[CHR 0x1B] @ ''c'' @ nl
              @ concat (map (\<lambda>x. task_line c now (heap w x) @ nl) pre)
              @ (stateSymbols c (state (heap w a)) @ '' '' @ name (heap w a) @ '' ''
                 @ blackBright c (''('' @ txt @ '')''))
              @ concat (map (\<lambda>x. nl @ task_line c now (heap w x)) post)
              @ nl @ ''---'' @ nl]
         \<and> (fin - s \<le> 1000 \<longrightarrow>
               (\<exists>ds. txt = ds @ ''ms'' \<and> is_decimal ds \<and> int (number_of ds) = fin - s))
         \<and> (1000 < fin - s \<longrightarrow>
               (\<exists>qs r. txt = qs @ (if r = 0 then [] else ''.'' @ [digit r]) @ ''s''
                  \<and> is_decimal qs \<and> r < 10
                  \<and> 100 * (10 * int (number_of qs) + int r) - 50 \<le> fin - s
                  \<and> fin - s < 100 * (10 * int (number_of qs) + int r) + 50))"
proof -
  let ?t = "heap w a"
  have e: "elapsed_ms now ?t = fin - s"
    using assms(2,6) by (auto simp: elapsed_ms_def)
  have line: "task_line c now ?t =
      stateSymbols c (state ?t) @ '' '' @ name ?t @ '' ''
      @ blackBright c (''('' @ elapsed_text (fin - s) @ '')'')"
    by (simp add: task_line_def e elapsed_text_not_empty Let_def)
  have out: "stdout (printTasks c now w) = stdout w @
             [[CHR 0x1B] @ ''c'' @ nl
              @ concat (map (\<lambda>x. task_line c now (heap w x) @ nl) pre)
              @ task_line c now ?t
              @ concat (map (\<lambda>x. nl @ task_line c now (heap w x)) post)
              @ nl @ ''---'' @ nl]"
  proof -
    have "join nl (map (\<lambda>x. task_line c now (heap w x)) (guzzleTasks w)) =
        concat (map (\<lambda>x. task_line c now (heap w x) @ nl) pre)
        @ task_line c now ?t
        @ concat (map (\<lambda>x. nl @ task_line c now (heap w x)) post)"
      unfolding assms(1) by (rule join_middle)
    then show ?thesis by (simp add: printTasks_def)
  qed
  have ms: "fin - s \<le> 1000 \<longrightarrow>
      (\<exists>ds. elapsed_text (fin - s) = ds @ ''ms'' \<and> is_decimal ds \<and> int (number_of ds) = fin - s)"
    using elapsed_text_ms [of "fin - s"] assms(4) by simp
  have sec: "1000 < fin - s \<longrightarrow>
      (\<exists>qs r. elapsed_text (fin - s) = qs @ (if r = 0 then [] else ''.'' @ [digit r]) @ ''s''
         \<and> is_decimal qs \<and> r < 10
         \<and> 100 * (10 * int (number_of qs) + int r) - 50 \<le> fin - s
         \<and> fin - s < 100 * (10 * int (number_of qs) + int r) + 50)"
    using elapsed_text_s [of "fin - s"] by blast
  from out have "stdout (printTasks c now w) = stdout w @
             [[CHR 0x1B] @ ''c'' @ nl
              @ concat (map (\<lambda>x. task_line c now (heap w x) @ nl) pre)
              @ (stateSymbols c (state ?t) @ '' '' @ name ?t @ '' ''
                 @ blackBright c (''('' @ elapsed_text (fin - s) @ '')''))
              @ concat (map (\<lambda>x. nl @ task_line c now (heap w x)) post)
              @ nl @ ''---'' @ nl]"
    unfolding line .
  with ms sec show ?thesis by blast
qed

lemma css_ran_facts:
  "guzzleTasks (css_ran e) = [0]" "name (heap (css_ran e) 0) = ''css''"
  "started (heap (css_ran e) 0) = Some 0" "ended (heap (css_ran e) 0) = Some e"
  "state (heap (css_ran e) 0) = DONE" "stdout (css_ran e) = []"
  by (simp_all add: css_ran_def css_declared_def new_GuzzleTask_def init_def Let_def)

lemma css_running_facts:
  "guzzleTasks css_running = [0]" "name (heap css_running 0) = ''css''"
  "started (heap css_running 0) = Some 100" "ended (heap css_running 0) = None"
  "state (heap css_running 0) = STARTED" "stdout css_running = []"
  by (simp_all add: css_running_def css_declared_def new_GuzzleTask_def init_def Let_def)

lemma digits_small: "n < 10 \<Longrightarrow> digits n = [digit n]"
  by (simp add: digits.simps)

lemma digits_step: "10 \<le> n \<Longrightarrow> digits n = digits (n div 10) @ [digit (n mod 10)]"
  by (subst digits.simps) simp

lemma digit_values:
  "digit 0 = CHR ''0''" "digit 1 = CHR ''1''" "digit 2 = CHR ''2''" "digit 3 = CHR ''3''"
  "digit 4 = CHR ''4''" "digit 5 = CHR ''5''" "digit 6 = CHR ''6''" "digit 7 = CHR ''7''"
  "digit 8 = CHR ''8''" "digit 9 = CHR ''9''" "digit (Suc 0) = CHR ''1''"
  by (simp_all add: digit_def)

lemma ex_texts:
  "elapsed_text 1000 = ''1000ms''" "elapsed_text 2000 = ''2s''" "elapsed_text 1234 = ''1.2s''"
  "elapsed_text 250 = ''250ms''" "elapsed_text 0 = ''0ms''" "elapsed_text (- 9500) = ''-9500ms''"
  "elapsed_text 1050 = ''1.1s''" "elapsed_text 1049 = ''1s''" "elapsed_text 59960 = ''60s''"
  by (simp_all add: elapsed_text_def Number_toString_def tenths_toString_def Math_round_div100_def
      digits_small digits_step digit_values)

lemma snapshot_css_ran:
  "stdout (printTasks plain now (css_ran e)) =
     [[CHR 0x1B] @ ''c'' @ nl @ (''v css '' @ ''('' @ elapsed_text e @ '')'') @ nl @ ''---'' @ nl]"
  by (simp add: printTasks_def task_line_def elapsed_ms_def css_ran_facts plain_def
      elapsed_text_not_empty Let_def)

text \<open>
  Claim C9 says that the elapsed time is printed in seconds with one decimal place once
  it is 1 second or more. A task that ran for exactly 1000 milliseconds is printed with
  \<open>(1000ms)\<close>, and one that ran for 2000 with \<open>(2s)\<close>.
\<close>

theorem seconds_format_counterexample:
  "stdout (printTasks plain 5000 (css_ran 1000)) =
     [[CHR 0x1B] @ ''c'' @ nl @ ''v css (1000ms)'' @ nl @ ''---'' @ nl]
   \<and> stdout (printTasks plain 5000 (css_ran 2000)) =
     [[CHR 0x1B] @ ''c'' @ nl @ ''v css (2s)'' @ nl @ ''---'' @ nl]"
  by (simp add: snapshot_css_ran ex_texts)

theorem started_task_elapsed_suffix_witness:
  "guzzleTasks (css_ran 1234) = [] @ 0 # []
   \<and> started (heap (css_ran 1234) 0) = Some 0 \<and> (0 :: int) \<le> 0 \<and> (0 :: int) \<le> 1234
   \<and> (1234 :: int) \<le> 8640000000000000
   \<and> state (heap (css_ran 1234) 0) = DONE \<and> ended (heap (css_ran 1234) 0) = Some 1234
   \<and> (1000 :: int) < 1234 - 0
   \<and> (\<exists>txt qs r.
          stdout (printTasks plain 5000 (css_ran 1234)) =
            [[CHR 0x1B] @ ''c'' @ nl @ (''v css '' @ ''('' @ txt @ '')'') @ nl @ ''---'' @ nl]
        \<and> txt = qs @ (if r = 0 then [] else ''.'' @ [digit r]) @ ''s''
        \<and> is_decimal qs \<and> r < 10
        \<and> 100 * (10 * int (number_of qs) + int r) - 50 \<le> (1234 :: int)
        \<and> (1234 :: int) < 100 * (10 * int (number_of qs) + int r) + 50)
   \<and> stdout (printTasks plain 5000 (css_ran 1234)) =
        [[CHR 0x1B] @ ''c'' @ nl @ ''v css (1.2s)'' @ nl @ ''---'' @ nl]
   \<and> guzzleTasks css_running = [] @ 0 # []
   \<and> started (heap css_running 0) = Some 100 \<and> (0 :: int) \<le> 100 \<and> (100 :: int) \<le> 350
   \<and> (350 :: int) \<le> 8640000000000000
   \<and> ended (heap css_running 0) = None
   \<and> (350 :: int) - 100 \<le> 1000
   \<and> (\<exists>txt ds.
          stdout (printTasks plain 350 css_running) =
            [[CHR 0x1B] @ ''c'' @ nl @ (''? css '' @ ''('' @ txt @ '')'') @ nl @ ''---'' @ nl]
        \<and> txt = ds @ ''ms'' \<and> is_decimal ds \<and> int (number_of ds) = 250)"
proof -
  have h1: "guzzleTasks (css_ran 1234) = [] @ 0 # []"
    "started (heap (css_ran 1234) 0) = Some 0" "(0 :: int) \<le> 0" "(0 :: int) \<le> 1234"
    "(1234 :: int) \<le> 8640000000000000"
    "(state (heap (css_ran 1234) 0) = DONE \<and> ended (heap (css_ran 1234) 0) = Some 1234)
     \<or> (ended (heap (css_ran 1234) 0) = None \<and> 1234 = (5000 :: int))"
    by (simp_all add: css_ran_facts)
  have h2: "guzzleTasks css_running = [] @ 0 # []"
    "started (heap css_running 0) = Some 100" "(0 :: int) \<le> 100" "(100 :: int) \<le> 350"
    "(350 :: int) \<le> 8640000000000000"
    "(state (heap css_running 0) = DONE \<and> ended (heap css_running 0) = Some 350)
     \<or> (ended (heap css_running 0) = None \<and> 350 = (350 :: int))"
    by (simp_all add: css_running_facts)
  from started_task_elapsed_suffix [OF h1, of plain]
  have 1: "\<exists>txt qs r.
          stdout (printTasks plain 5000 (css_ran 1234)) =
            [[CHR 0x1B] @ ''c'' @ nl @ (''v css '' @ ''('' @ txt @ '')'') @ nl @ ''---'' @ nl]
        \<and> txt = qs @ (if r = 0 then [] else ''.'' @ [digit r]) @ ''s''
        \<and> is_decimal qs \<and> r < 10
        \<and> 100 * (10 * int (number_of qs) + int r) - 50 \<le> (1234 :: int)
        \<and> (1234 :: int) < 100 * (10 * int (number_of qs) + int r) + 50"
    by (auto simp: css_ran_facts plain_def)
  from started_task_elapsed_suffix [OF h2, of plain]
  have 2: "\<exists>txt ds.
          stdout (printTasks plain 350 css_running) =
            [[CHR 0x1B] @ ''c'' @ nl @ (''? css '' @ ''('' @ txt @ '')'') @ nl @ ''---'' @ nl]
        \<and> txt = ds @ ''ms'' \<and> is_decimal ds \<and> int (number_of ds) = 250"
    by (auto simp: css_running_facts plain_def)
  have 3: "stdout (printTasks plain 5000 (css_ran 1234)) =
        [[CHR 0x1B] @ ''c'' @ nl @ ''v css (1.2s)'' @ nl @ ''---'' @ nl]"
    by (simp add: snapshot_css_ran ex_texts)
  show ?thesis using 1 2 3 by (simp add: css_ran_facts css_running_facts)
qed

text \<open>The text of the elapsed time is never empty, so the line of a task that has not
  started carries a suffix as well; and the start handler leaves \<open>ended\<close> as it is, so a
  task that runs again is measured against the end of its earlier run.\<close>

lemma suffix_is_always_printed:
  "started (heap css_declared 0) = None
   \<and> task_line plain 5000 (heap css_declared 0) = ''- css (0ms)''"
  by (simp add: task_line_def ex_texts elapsed_ms_def plain_def css_declared_def
      new_GuzzleTask_def init_def Let_def)

lemma restarted_task_is_measured_against_old_end:
  "(case task_start plain 10000 ''css'' (css_ran 500) of
      Inl e \<Rightarrow> []
    | Inr w \<Rightarrow> task_line plain 12000 (heap w 0)) = ''? css (-9500ms)''"
  by (simp add: task_start_def findGuzzleTask_def css_ran_facts task_line_def elapsed_ms_def
      plain_def ex_texts Let_def)

end
